theory Spec2Isabelle
  imports Main "HOL-Library.Char_ord" "HOL-Library.List_Lexorder"
begin

section \<open>Data model of xpra/codecs/video\_helper.py\<close>

text \<open>
  Python exceptions are values. \<open>AssertionError\<close> is what a failed \<open>assert\<close>
  raises; \<open>Raised msg\<close> stands for any exception coming out of a codec module or
  out of the codec loader (the code only ever catches them as \<open>Exception\<close>).
\<close>

datatype exn = AssertionError | Raised string

text \<open>
  A codec spec is an opaque value made by a codec module; the helper only reads
  its \<open>codec_type\<close> attribute.
\<close>

datatype spec = Spec (codec_type: string) (payload: nat)

text \<open>
  A loaded codec module, as the helper uses it. Every call into a module may raise,
  so every method yields \<open>exn + result\<close>. Encoders and decoders take the encoding
  in \<open>get_input_colorspaces(encoding)\<close>, colorspace converters take no argument:
  the two call shapes are two fields. \<open>m_Decoder\<close> is the truth value of the
  module attribute \<open>Decoder\<close>; \<open>m_cleanup_module\<close> is the exception that
  \<open>cleanup_module()\<close> raises, if any.
\<close>

record codec_module =
  m_name :: string
  m_get_type :: "exn + string"
  m_get_encodings :: "exn + string list"
  m_get_input_colorspaces :: "string \<Rightarrow> exn + string list"
  m_get_csc_input_colorspaces :: "exn + string list"
  m_get_output_colorspaces :: "string \<Rightarrow> exn + string list"
  m_get_output_colorspace :: "string \<Rightarrow> string \<Rightarrow> exn + string"
  m_get_spec :: "string \<Rightarrow> string \<Rightarrow> exn + spec"
  m_Decoder :: bool
  m_cleanup_module :: "exn option"

type_synonym decoder_entry = "string \<times> codec_module"

text \<open>
  The module-level constants and the codec loader (\<open>xpra.codecs.loader\<close>, imported
  by the file) are the environment of every function: the three catalogs computed
  at import time, \<open>load_codec\<close> (the exception it raises, if any) and \<open>get_codec\<close>
  (the module handle, or \<open>None\<close>).
\<close>

record env =
  ALL_VIDEO_ENCODER_OPTIONS :: "string list"
  ALL_CSC_MODULE_OPTIONS :: "string list"
  ALL_VIDEO_DECODER_OPTIONS :: "string list"
  load_codec :: "string \<Rightarrow> exn option"
  get_codec :: "string \<Rightarrow> codec_module option"

subsection \<open>The object store\<close>

text \<open>
  The capability tables are dictionaries of dictionaries of lists, all mutable and
  shared by reference. The store keeps each kind of object under its address;
  \<open>next_addr\<close> is the first address never handed out. A dictionary is an
  association list in insertion order.
\<close>

type_synonym addr = nat

record 'v heap =
  outer_dicts :: "addr \<Rightarrow> (string \<times> addr) list"
  inner_dicts :: "addr \<Rightarrow> (string \<times> addr) list"
  lists :: "addr \<Rightarrow> 'v list"
  next_addr :: addr

text \<open>Encoder and csc tables hold specs, the decoder table holds (name, module) pairs.\<close>

record world =
  spec_heap :: "spec heap"
  dec_heap :: "decoder_entry heap"

record VideoHelper =
  video_encoder_specs :: addr
  csc_encoder_specs :: addr
  video_decoder_specs :: addr
  video_encoders :: "string list"
  csc_modules :: "string list"
  video_decoders :: "string list"
  cleanup_modules :: "codec_module list"
  initialized :: bool

section \<open>Strings\<close>

text \<open>\<open>x.startswith("-")\<close>, \<open>x[1:]\<close> and \<open>x.find(sub) >= 0\<close>.\<close>

definition startswith_dash :: "string \<Rightarrow> bool" where
  "startswith_dash x = (case x of [] \<Rightarrow> False | c # cs \<Rightarrow> c = CHR ''-'')"

fun startswith :: "string \<Rightarrow> string \<Rightarrow> bool" where
  "startswith x [] = True"
| "startswith [] (p # ps) = False"
| "startswith (c # cs) (p # ps) = (c = p \<and> startswith cs ps)"

fun contains_str :: "string \<Rightarrow> string \<Rightarrow> bool" where
  "contains_str [] sub = (sub = [])"
| "contains_str (c # cs) sub = (startswith (c # cs) sub \<or> contains_str cs sub)"

section \<open>set\_modules\<close>

text \<open>What \<open>log.warn\<close> and \<open>log.error\<close> report; debug logging is left out.\<close>

datatype event =
  WarnIgnoringUnknown string "string list"
| ErrorCleaningUp string exn

text \<open>
  The local function \<open>filt(name, inlist, all_list)\<close>: the warnings it logs and
  the tuple it returns.
\<close>

definition filt :: "string \<Rightarrow> string list \<Rightarrow> string list \<Rightarrow> event list \<times> string list" where
  "filt name inlist all_list =
    (let exclist = map tl (filter (\<lambda>x. x \<noteq> [] \<and> startswith_dash x) inlist);
         inclist = filter (\<lambda>x. x \<noteq> [] \<and> \<not> startswith_dash x) inlist
     in if ''all'' \<in> set inclist
        then ([], filter (\<lambda>x. x \<notin> set exclist) all_list)
        else
          (let notfound = filter (\<lambda>x. x \<noteq> [] \<and> x \<notin> set all_list) (exclist @ inclist)
           in (if notfound \<noteq> [] then [WarnIgnoringUnknown name notfound] else [],
               filter (\<lambda>x. x \<notin> set exclist) inclist)))"

definition set_modules ::
  "env \<Rightarrow> VideoHelper \<Rightarrow> string list \<Rightarrow> string list \<Rightarrow> string list
     \<Rightarrow> exn + (VideoHelper \<times> event list)" where
  "set_modules E self venc csc vdec =
    (if initialized self then Inl AssertionError
     else
       (let (w1, encs) = filt ''video encoders'' venc (ALL_VIDEO_ENCODER_OPTIONS E);
            (w2, cscs) = filt ''csc modules'' csc (ALL_CSC_MODULE_OPTIONS E);
            (w3, decs) = filt ''video decoders'' vdec (ALL_VIDEO_DECODER_OPTIONS E)
        in Inr (self\<lparr>video_encoders := encs, csc_modules := cscs, video_decoders := decs\<rparr>,
                w1 @ w2 @ w3)))"

section \<open>Python containers\<close>

text \<open>\<open>d[k] = v\<close> on a dictionary: replace in place, or append a new key.\<close>

fun dict_set :: "('k \<times> 'v) list \<Rightarrow> 'k \<Rightarrow> 'v \<Rightarrow> ('k \<times> 'v) list" where
  "dict_set [] k v = [(k, v)]"
| "dict_set ((k', v') # d) k v = (if k' = k then (k, v) # d else (k', v') # dict_set d k v)"

text \<open>A new empty outer dictionary \<open>{}\<close>.\<close>

definition new_outer_dict :: "'v heap \<Rightarrow> 'v heap \<times> addr" where
  "new_outer_dict h =
    (h\<lparr>outer_dicts := (outer_dicts h)(next_addr h := []), next_addr := Suc (next_addr h)\<rparr>,
     next_addr h)"

text \<open>
  \<open>outd.setdefault(k, {})\<close> on the outer dictionary at \<open>a\<close>: the inner dictionary
  already stored under \<open>k\<close>, or a new empty one stored there.
\<close>

definition outer_setdefault :: "'v heap \<Rightarrow> addr \<Rightarrow> string \<Rightarrow> 'v heap \<times> addr" where
  "outer_setdefault h a k =
    (case map_of (outer_dicts h a) k of
       Some ia \<Rightarrow> (h, ia)
     | None \<Rightarrow>
        (h\<lparr>outer_dicts := (outer_dicts h)(a := outer_dicts h a @ [(k, next_addr h)]),
           inner_dicts := (inner_dicts h)(next_addr h := []),
           next_addr := Suc (next_addr h)\<rparr>,
         next_addr h))"

text \<open>\<open>d.setdefault(k, [])\<close> on the inner dictionary at \<open>ia\<close>.\<close>

definition inner_setdefault :: "'v heap \<Rightarrow> addr \<Rightarrow> string \<Rightarrow> 'v heap \<times> addr" where
  "inner_setdefault h ia k =
    (case map_of (inner_dicts h ia) k of
       Some la \<Rightarrow> (h, la)
     | None \<Rightarrow>
        (h\<lparr>inner_dicts := (inner_dicts h)(ia := inner_dicts h ia @ [(k, next_addr h)]),
           lists := (lists h)(next_addr h := []),
           next_addr := Suc (next_addr h)\<rparr>,
         next_addr h))"

definition list_append :: "'v heap \<Rightarrow> addr \<Rightarrow> 'v \<Rightarrow> 'v heap" where
  "list_append h la v = h\<lparr>lists := (lists h)(la := lists h la @ [v])\<rparr>"

text \<open>\<open>table.setdefault(k1, {}).setdefault(k2, []).append(v)\<close>.\<close>

definition table_add :: "'v heap \<Rightarrow> addr \<Rightarrow> string \<Rightarrow> string \<Rightarrow> 'v \<Rightarrow> 'v heap" where
  "table_add h a k1 k2 v =
    (let (h1, ia) = outer_setdefault h a k1;
         (h2, la) = inner_setdefault h1 ia k2
     in list_append h2 la v)"

text \<open>What a reader of the table at \<open>a\<close> sees: the nested \<open>items()\<close>.\<close>

definition read_inner :: "'v heap \<Rightarrow> addr \<Rightarrow> (string \<times> 'v list) list" where
  "read_inner h ia = map (\<lambda>(k, la). (k, lists h la)) (inner_dicts h ia)"

definition read_table :: "'v heap \<Rightarrow> addr \<Rightarrow> (string \<times> (string \<times> 'v list) list) list" where
  "read_table h a = map (\<lambda>(k, ia). (k, read_inner h ia)) (outer_dicts h a)"

section \<open>Module names and installed defaults\<close>

definition get_encoder_module_name :: "string \<Rightarrow> string" where
  "get_encoder_module_name x = (if contains_str x ''enc'' then x else ''enc_'' @ x)"

definition get_decoder_module_name :: "string \<Rightarrow> string" where
  "get_decoder_module_name x = ''dec_'' @ x"

definition get_csc_module_name :: "string \<Rightarrow> string" where
  "get_csc_module_name x = ''csc_'' @ x"

text \<open>The loop of \<open>get_DEFAULT_VIDEO_ENCODERS\<close>, with its \<open>break\<close>.\<close>

fun default_encoders_loop :: "env \<Rightarrow> string list \<Rightarrow> string list \<Rightarrow> string list" where
  "default_encoders_loop E [] encoders = encoders"
| "default_encoders_loop E (x # xs) encoders =
    (case get_codec E (get_encoder_module_name x) of
       Some c \<Rightarrow> encoders @ [x]
     | None \<Rightarrow> default_encoders_loop E xs encoders)"

definition get_DEFAULT_VIDEO_ENCODERS :: "env \<Rightarrow> string list" where
  "get_DEFAULT_VIDEO_ENCODERS E = default_encoders_loop E (ALL_VIDEO_ENCODER_OPTIONS E) []"

fun default_csc_loop :: "env \<Rightarrow> string list \<Rightarrow> string list \<Rightarrow> string list" where
  "default_csc_loop E [] csc = csc"
| "default_csc_loop E (x # xs) csc =
    (case get_codec E (get_csc_module_name x) of
       Some c \<Rightarrow> default_csc_loop E xs (csc @ [x])
     | None \<Rightarrow> default_csc_loop E xs csc)"

definition get_DEFAULT_CSC_MODULES :: "env \<Rightarrow> string list" where
  "get_DEFAULT_CSC_MODULES E = default_csc_loop E (ALL_CSC_MODULE_OPTIONS E) []"

fun default_decoders_loop :: "env \<Rightarrow> string list \<Rightarrow> string list \<Rightarrow> string list" where
  "default_decoders_loop E [] decoders = decoders"
| "default_decoders_loop E (x # xs) decoders =
    (case get_codec E (get_decoder_module_name x) of
       Some c \<Rightarrow> default_decoders_loop E xs (decoders @ [x])
     | None \<Rightarrow> default_decoders_loop E xs decoders)"

definition get_DEFAULT_VIDEO_DECODERS :: "env \<Rightarrow> string list" where
  "get_DEFAULT_VIDEO_DECODERS E = default_decoders_loop E (ALL_VIDEO_DECODER_OPTIONS E) []"

section \<open>The registry\<close>

text \<open>\<open>vencspecs or {}\<close>: the given dictionary unless it is \<open>None\<close> or empty.\<close>

definition or_new_dict :: "'v heap \<Rightarrow> addr option \<Rightarrow> 'v heap \<times> addr" where
  "or_new_dict h arg =
    (case arg of
       None \<Rightarrow> new_outer_dict h
     | Some a \<Rightarrow> if outer_dicts h a = [] then new_outer_dict h else (h, a))"

definition VideoHelper_init ::
  "world \<Rightarrow> addr option \<Rightarrow> addr option \<Rightarrow> addr option \<Rightarrow> bool \<Rightarrow> world \<times> VideoHelper" where
  "VideoHelper_init w vencspecs cscspecs vdecspecs init_flag =
    (let (sh1, ves) = or_new_dict (spec_heap w) vencspecs;
         (sh2, ces) = or_new_dict sh1 cscspecs;
         (dh1, vds) = or_new_dict (dec_heap w) vdecspecs
     in (w\<lparr>spec_heap := sh2, dec_heap := dh1\<rparr>,
         \<lparr>video_encoder_specs = ves, csc_encoder_specs = ces, video_decoder_specs = vds,
          video_encoders = [], csc_modules = [], video_decoders = [],
          cleanup_modules = [], initialized = init_flag\<rparr>))"

definition add_encoder_spec :: "world \<Rightarrow> VideoHelper \<Rightarrow> string \<Rightarrow> string \<Rightarrow> spec \<Rightarrow> world" where
  "add_encoder_spec w self encoding colorspace sp =
    w\<lparr>spec_heap := table_add (spec_heap w) (video_encoder_specs self) encoding colorspace sp\<rparr>"

definition add_csc_spec :: "world \<Rightarrow> VideoHelper \<Rightarrow> string \<Rightarrow> string \<Rightarrow> spec \<Rightarrow> world" where
  "add_csc_spec w self in_csc out_csc sp =
    w\<lparr>spec_heap := table_add (spec_heap w) (csc_encoder_specs self) in_csc out_csc sp\<rparr>"

definition add_decoder ::
  "world \<Rightarrow> VideoHelper \<Rightarrow> string \<Rightarrow> string \<Rightarrow> string \<Rightarrow> codec_module \<Rightarrow> world" where
  "add_decoder w self encoding colorspace decoder_name decoder_module =
    w\<lparr>dec_heap := table_add (dec_heap w) (video_decoder_specs self) encoding colorspace
                    (decoder_name, decoder_module)\<rparr>"

definition get_encodings :: "world \<Rightarrow> VideoHelper \<Rightarrow> string list" where
  "get_encodings w self = map fst (outer_dicts (spec_heap w) (video_encoder_specs self))"

definition get_decodings :: "world \<Rightarrow> VideoHelper \<Rightarrow> string list" where
  "get_decodings w self = map fst (outer_dicts (dec_heap w) (video_decoder_specs self))"

definition get_csc_inputs :: "world \<Rightarrow> VideoHelper \<Rightarrow> string list" where
  "get_csc_inputs w self = map fst (outer_dicts (spec_heap w) (csc_encoder_specs self))"

text \<open>\<open>table.get(key, {})\<close>, read through to the lists it holds.\<close>

definition table_get :: "'v heap \<Rightarrow> addr \<Rightarrow> string \<Rightarrow> (string \<times> 'v list) list" where
  "table_get h a key =
    (case map_of (outer_dicts h a) key of Some ia \<Rightarrow> read_inner h ia | None \<Rightarrow> [])"

definition get_encoder_specs :: "world \<Rightarrow> VideoHelper \<Rightarrow> string \<Rightarrow> (string \<times> spec list) list" where
  "get_encoder_specs w self encoding = table_get (spec_heap w) (video_encoder_specs self) encoding"

definition get_csc_specs :: "world \<Rightarrow> VideoHelper \<Rightarrow> string \<Rightarrow> (string \<times> spec list) list" where
  "get_csc_specs w self src_format = table_get (spec_heap w) (csc_encoder_specs self) src_format"

definition get_decoder_specs ::
  "world \<Rightarrow> VideoHelper \<Rightarrow> string \<Rightarrow> (string \<times> decoder_entry list) list" where
  "get_decoder_specs w self encoding = table_get (dec_heap w) (video_decoder_specs self) encoding"

section \<open>Initialisation\<close>

text \<open>
  Each \<open>init_*_option\<close> function stops at the first exception a module call raises
  and hands it to its caller, which catches it; what was added to the table before
  stays. The result is that exception (if any) and the world reached.
\<close>

fun encoder_colorspaces_loop ::
  "world \<Rightarrow> VideoHelper \<Rightarrow> codec_module \<Rightarrow> string \<Rightarrow> string list \<Rightarrow> exn option \<times> world" where
  "encoder_colorspaces_loop w self m encoding [] = (None, w)"
| "encoder_colorspaces_loop w self m encoding (colorspace # rest) =
    (case m_get_spec m encoding colorspace of
       Inl e \<Rightarrow> (Some e, w)
     | Inr sp \<Rightarrow>
         encoder_colorspaces_loop (add_encoder_spec w self encoding colorspace sp) self m encoding rest)"

fun encoder_encodings_loop ::
  "world \<Rightarrow> VideoHelper \<Rightarrow> codec_module \<Rightarrow> string list \<Rightarrow> exn option \<times> world" where
  "encoder_encodings_loop w self m [] = (None, w)"
| "encoder_encodings_loop w self m (encoding # rest) =
    (case m_get_input_colorspaces m encoding of
       Inl e \<Rightarrow> (Some e, w)
     | Inr colorspaces \<Rightarrow>
        (case encoder_colorspaces_loop w self m encoding colorspaces of
           (Some e, w') \<Rightarrow> (Some e, w')
         | (None, w') \<Rightarrow> encoder_encodings_loop w' self m rest))"

definition init_video_encoder_option ::
  "env \<Rightarrow> world \<Rightarrow> VideoHelper \<Rightarrow> string \<Rightarrow> exn option \<times> world" where
  "init_video_encoder_option E w self encoder_name =
    (case get_codec E encoder_name of
       None \<Rightarrow> (None, w)
     | Some encoder_module \<Rightarrow>
        (case m_get_type encoder_module of
           Inl e \<Rightarrow> (Some e, w)
         | Inr encoder_type \<Rightarrow>
            (case m_get_encodings encoder_module of
               Inl e \<Rightarrow> (Some e, w)
             | Inr encodings \<Rightarrow> encoder_encodings_loop w self encoder_module encodings)))"

text \<open>Both \<open>try\<close> blocks only log what they catch, and go on with the next name.\<close>

definition init_video_encoders_options :: "env \<Rightarrow> world \<Rightarrow> VideoHelper \<Rightarrow> world" where
  "init_video_encoders_options E w self =
    fold (\<lambda>x w'. case load_codec E (get_encoder_module_name x) of
                    Some e \<Rightarrow> w'
                  | None \<Rightarrow> snd (init_video_encoder_option E w' self (get_encoder_module_name x)))
         (video_encoders self) w"

fun csc_out_loop ::
  "world \<Rightarrow> VideoHelper \<Rightarrow> codec_module \<Rightarrow> string \<Rightarrow> string list \<Rightarrow> exn option \<times> world" where
  "csc_out_loop w self m in_csc [] = (None, w)"
| "csc_out_loop w self m in_csc (out_csc # rest) =
    (case m_get_spec m in_csc out_csc of
       Inl e \<Rightarrow> (Some e, w)
     | Inr sp \<Rightarrow> csc_out_loop (add_csc_spec w self in_csc out_csc sp) self m in_csc rest)"

text \<open>The log call between the two loops evaluates \<open>csc_module.get_type()\<close>.\<close>

fun csc_in_loop ::
  "world \<Rightarrow> VideoHelper \<Rightarrow> codec_module \<Rightarrow> string list \<Rightarrow> exn option \<times> world" where
  "csc_in_loop w self m [] = (None, w)"
| "csc_in_loop w self m (in_csc # rest) =
    (case m_get_output_colorspaces m in_csc of
       Inl e \<Rightarrow> (Some e, w)
     | Inr out_cscs \<Rightarrow>
        (case m_get_type m of
           Inl e \<Rightarrow> (Some e, w)
         | Inr t \<Rightarrow>
            (case csc_out_loop w self m in_csc out_cscs of
               (Some e, w') \<Rightarrow> (Some e, w')
             | (None, w') \<Rightarrow> csc_in_loop w' self m rest)))"

definition init_csc_option :: "env \<Rightarrow> world \<Rightarrow> VideoHelper \<Rightarrow> string \<Rightarrow> exn option \<times> world" where
  "init_csc_option E w self csc_name =
    (case get_codec E csc_name of
       None \<Rightarrow> (None, w)
     | Some csc_module \<Rightarrow>
        (case m_get_csc_input_colorspaces csc_module of
           Inl e \<Rightarrow> (Some e, w)
         | Inr in_cscs \<Rightarrow> csc_in_loop w self csc_module in_cscs))"

definition init_csc_options :: "env \<Rightarrow> world \<Rightarrow> VideoHelper \<Rightarrow> world" where
  "init_csc_options E w self =
    fold (\<lambda>x w'. case load_codec E (get_csc_module_name x) of
                    Some e \<Rightarrow> w'
                  | None \<Rightarrow> snd (init_csc_option E w' self (get_csc_module_name x)))
         (csc_modules self) w"

text \<open>
  A decoder whose \<open>Decoder\<close> attribute fails the \<open>assert\<close> is skipped for that
  pair: the inner \<open>try\<close> catches the error and the loop goes on.
\<close>

fun decoder_colorspaces_loop ::
  "world \<Rightarrow> VideoHelper \<Rightarrow> string \<Rightarrow> codec_module \<Rightarrow> string \<Rightarrow> string list
     \<Rightarrow> exn option \<times> world" where
  "decoder_colorspaces_loop w self decoder_name m encoding [] = (None, w)"
| "decoder_colorspaces_loop w self decoder_name m encoding (colorspace # rest) =
    (case m_get_output_colorspace m encoding colorspace of
       Inl e \<Rightarrow> (Some e, w)
     | Inr output_colorspace \<Rightarrow>
         decoder_colorspaces_loop
           (if m_Decoder m then add_decoder w self encoding colorspace decoder_name m else w)
           self decoder_name m encoding rest)"

fun decoder_encodings_loop ::
  "world \<Rightarrow> VideoHelper \<Rightarrow> string \<Rightarrow> codec_module \<Rightarrow> string list \<Rightarrow> exn option \<times> world" where
  "decoder_encodings_loop w self decoder_name m [] = (None, w)"
| "decoder_encodings_loop w self decoder_name m (encoding # rest) =
    (case m_get_input_colorspaces m encoding of
       Inl e \<Rightarrow> (Some e, w)
     | Inr colorspaces \<Rightarrow>
        (case decoder_colorspaces_loop w self decoder_name m encoding colorspaces of
           (Some e, w') \<Rightarrow> (Some e, w')
         | (None, w') \<Rightarrow> decoder_encodings_loop w' self decoder_name m rest))"

definition init_video_decoder_option ::
  "env \<Rightarrow> world \<Rightarrow> VideoHelper \<Rightarrow> string \<Rightarrow> exn option \<times> world" where
  "init_video_decoder_option E w self decoder_name =
    (case get_codec E decoder_name of
       None \<Rightarrow> (None, w)
     | Some decoder_module \<Rightarrow>
        (case m_get_type decoder_module of
           Inl e \<Rightarrow> (Some e, w)
         | Inr decoder_type \<Rightarrow>
            (case m_get_encodings decoder_module of
               Inl e \<Rightarrow> (Some e, w)
             | Inr encodings \<Rightarrow>
                 decoder_encodings_loop w self decoder_name decoder_module encodings)))"

definition init_video_decoders_options :: "env \<Rightarrow> world \<Rightarrow> VideoHelper \<Rightarrow> world" where
  "init_video_decoders_options E w self =
    fold (\<lambda>x w'. case load_codec E (get_decoder_module_name x) of
                    Some e \<Rightarrow> w'
                  | None \<Rightarrow> snd (init_video_decoder_option E w' self (get_decoder_module_name x)))
         (video_decoders self) w"

definition init :: "env \<Rightarrow> world \<Rightarrow> VideoHelper \<Rightarrow> world \<times> VideoHelper" where
  "init E w self =
    (if initialized self then (w, self)
     else
       (let w1 = init_video_encoders_options E w self;
            w2 = init_csc_options E w1 self;
            w3 = init_video_decoders_options E w2 self
        in (w3, self\<lparr>initialized := True\<rparr>)))"

text \<open>
  The module handles \<open>init\<close> works with: for each enabled name whose \<open>load_codec\<close>
  does not raise, the handle \<open>get_codec\<close> returns, if any.
\<close>

definition loaded_by :: "env \<Rightarrow> (string \<Rightarrow> string) \<Rightarrow> string list \<Rightarrow> codec_module list" where
  "loaded_by E module_name names =
    concat (map (\<lambda>x. case load_codec E (module_name x) of
                         Some e \<Rightarrow> []
                       | None \<Rightarrow> (case get_codec E (module_name x) of
                                    None \<Rightarrow> []
                                  | Some m \<Rightarrow> [m]))
                names)"

definition loaded_modules :: "env \<Rightarrow> VideoHelper \<Rightarrow> codec_module list" where
  "loaded_modules E self =
    loaded_by E get_encoder_module_name (video_encoders self)
    @ loaded_by E get_csc_module_name (csc_modules self)
    @ loaded_by E get_decoder_module_name (video_decoders self)"

section \<open>Cleanup\<close>

text \<open>
  The loop over \<open>cmods\<close>: the modules whose \<open>cleanup_module()\<close> has been called,
  in call order, and the errors logged for those that raised.
\<close>

fun cleanup_loop ::
  "codec_module list \<Rightarrow> codec_module list \<times> event list \<Rightarrow> codec_module list \<times> event list" where
  "cleanup_loop [] acc = acc"
| "cleanup_loop (m # ms) (called, events) =
    (case m_cleanup_module m of
       None \<Rightarrow> cleanup_loop ms (called @ [m], events)
     | Some e \<Rightarrow> cleanup_loop ms (called @ [m], events @ [ErrorCleaningUp (m_name m) e]))"

definition cleanup ::
  "world \<Rightarrow> VideoHelper \<Rightarrow> world \<times> VideoHelper \<times> codec_module list \<times> event list" where
  "cleanup w self =
    (if \<not> initialized self then (w, self, [], [])
     else
       (let cmods = cleanup_modules self;
            (called, events) = cleanup_loop cmods ([], []);
            (sh1, ves) = new_outer_dict (spec_heap w);
            (sh2, ces) = new_outer_dict sh1;
            (dh1, vds) = new_outer_dict (dec_heap w)
        in (w\<lparr>spec_heap := sh2, dec_heap := dh1\<rparr>,
            self\<lparr>cleanup_modules := [],
                 video_encoder_specs := ves, csc_encoder_specs := ces, video_decoder_specs := vds,
                 video_encoders := [], csc_modules := [], video_decoders := [],
                 initialized := False\<rparr>,
            called, events)))"

section \<open>Clone\<close>

text \<open>
  The local function \<open>deepish_clone_dict\<close>: a new outer dictionary, filled entry by
  entry while the source is walked through the store.
\<close>

definition deepish_clone_dict :: "'v heap \<Rightarrow> addr \<Rightarrow> 'v heap \<times> addr" where
  "deepish_clone_dict h indict =
    (let (h0, outd) = new_outer_dict h
     in (fold (\<lambda>(enc, d) h1.
            fold (\<lambda>(ifmt, l) h2.
              fold (\<lambda>v h3. table_add h3 outd enc ifmt v) (lists h2 l) h2)
              (inner_dicts h1 d) h1)
            (outer_dicts h0 indict) h0,
         outd))"

text \<open>\<open>clone\<close> yields the world, the registry it was called on and the new registry.\<close>

definition clone :: "env \<Rightarrow> world \<Rightarrow> VideoHelper \<Rightarrow> world \<times> VideoHelper \<times> VideoHelper" where
  "clone E w self =
    (let (w1, self1) = (if \<not> initialized self then init E w self else (w, self));
         (sh1, ves) = deepish_clone_dict (spec_heap w1) (video_encoder_specs self1);
         (sh2, ces) = deepish_clone_dict sh1 (csc_encoder_specs self1);
         (dh1, vds) = deepish_clone_dict (dec_heap w1) (video_decoder_specs self1);
         (w2, c) = VideoHelper_init (w1\<lparr>spec_heap := sh2, dec_heap := dh1\<rparr>)
                     (Some ves) (Some ces) (Some vds) True
     in (w2, self1, c))"

section \<open>get\_info\<close>

text \<open>The values of the report: a list of names, a status string, a nested dictionary.\<close>

datatype info = Names "string list" | Status string | Dict "(string \<times> info) list"

text \<open>\<open>"%s_to_%s" % (a, b)\<close>.\<close>

definition fmt_to :: "string \<Rightarrow> string \<Rightarrow> string" where
  "fmt_to a b = a @ ''_to_'' @ b"

text \<open>\<open>d.setdefault(k, []).append(v)\<close> on a dictionary of lists.\<close>

definition setdefault_append ::
  "(string \<times> string list) list \<Rightarrow> string \<Rightarrow> string \<Rightarrow> (string \<times> string list) list" where
  "setdefault_append d k v =
    (case map_of d k of None \<Rightarrow> d @ [(k, [v])] | Some l \<Rightarrow> dict_set d k (l @ [v]))"

definition modstatus :: "string \<Rightarrow> string list \<Rightarrow> string list \<Rightarrow> string" where
  "modstatus x def_list active_list =
    (if x \<in> set active_list then ''active''
     else if x \<in> set def_list then ''disabled''
     else ''not found'')"

text \<open>The three loops over the tables; until they are done every value is a list.\<close>

definition encoding_info :: "world \<Rightarrow> VideoHelper \<Rightarrow> (string \<times> string list) list" where
  "encoding_info w self =
    fold (\<lambda>(encoding, encoder_specs) einfo.
      fold (\<lambda>(in_csc, specs) einfo1.
        fold (\<lambda>sp einfo2. setdefault_append einfo2 (fmt_to in_csc encoding) (codec_type sp))
          specs einfo1)
        encoder_specs einfo)
      (read_table (spec_heap w) (video_encoder_specs self)) []"

definition csc_info :: "world \<Rightarrow> VideoHelper \<Rightarrow> (string \<times> string list) list" where
  "csc_info w self =
    fold (\<lambda>(in_csc, out_specs) cinfo.
      fold (\<lambda>(out_csc, specs) cinfo1. dict_set cinfo1 (fmt_to in_csc out_csc) (map codec_type specs))
        out_specs cinfo)
      (read_table (spec_heap w) (csc_encoder_specs self)) []"

definition decoding_info :: "world \<Rightarrow> VideoHelper \<Rightarrow> (string \<times> string list) list" where
  "decoding_info w self =
    fold (\<lambda>(encoding, decoder_specs) dinfo.
      fold (\<lambda>(out_csc, decoders) dinfo1.
        fold (\<lambda>decoder dinfo2. setdefault_append dinfo2 (fmt_to encoding out_csc) (fst decoder))
          decoders dinfo1)
        decoder_specs dinfo)
      (read_table (dec_heap w) (video_decoder_specs self)) []"

text \<open>
  \<open>sub = einfo.setdefault(key, {})\<close> followed by \<open>sub[x] = status(x)\<close> for every
  \<open>x\<close> of the catalog. Item assignment on a value that is not a dictionary raises.
\<close>

definition status_dict ::
  "string list \<Rightarrow> (string \<Rightarrow> string) \<Rightarrow> (string \<times> info) list \<Rightarrow> (string \<times> info) list" where
  "status_dict catalog status d0 = fold (\<lambda>x d. dict_set d x (Status (status x))) catalog d0"

definition status_section ::
  "(string \<times> info) list \<Rightarrow> string \<Rightarrow> string list \<Rightarrow> (string \<Rightarrow> string)
     \<Rightarrow> exn + (string \<times> info) list" where
  "status_section einfo key catalog status =
    (case map_of einfo key of
       None \<Rightarrow> Inr (einfo @ [(key, Dict (status_dict catalog status []))])
     | Some (Dict d0) \<Rightarrow> Inr (dict_set einfo key (Dict (status_dict catalog status d0)))
     | Some other \<Rightarrow> if catalog = [] then Inr einfo else Inl (Raised ''TypeError''))"

definition get_info :: "env \<Rightarrow> world \<Rightarrow> VideoHelper \<Rightarrow> exn + (string \<times> info) list" where
  "get_info E w self =
    (let einfo = map (\<lambda>(k, l). (k, Names l)) (encoding_info w self);
         cinfo = map (\<lambda>(k, l). (k, Names l)) (csc_info w self);
         dinfo = map (\<lambda>(k, l). (k, Names l)) (decoding_info w self)
     in case status_section einfo ''video-encoder'' (ALL_VIDEO_ENCODER_OPTIONS E)
               (\<lambda>x. modstatus x (get_DEFAULT_VIDEO_ENCODERS E) (video_encoders self)) of
          Inl e \<Rightarrow> Inl e
        | Inr einfo1 \<Rightarrow>
           (case status_section einfo1 ''csc-module'' (ALL_CSC_MODULE_OPTIONS E)
                   (\<lambda>x. modstatus x (get_DEFAULT_CSC_MODULES E) (csc_modules self)) of
              Inl e \<Rightarrow> Inl e
            | Inr einfo2 \<Rightarrow>
                Inr [(''encoding'', Dict einfo2), (''decoding'', Dict dinfo), (''csc'', Dict cinfo)]))"

section \<open>Negotiation\<close>

text \<open>
  \<open>encoding_colorspaces = full_csc_modes.setdefault(encoding, [])\<close>, then the append
  of a colorspace not yet in that list.
\<close>

definition record_colorspace ::
  "(string \<times> string list) list \<Rightarrow> string \<Rightarrow> string \<Rightarrow> (string \<times> string list) list" where
  "record_colorspace full encoding colorspace =
    (case map_of full encoding of
       None \<Rightarrow> full @ [(encoding, [colorspace])]
     | Some l \<Rightarrow> if colorspace \<in> set l then full else dict_set full encoding (l @ [colorspace]))"

text \<open>An exception of \<open>get_output_colorspace\<close> is not caught: it ends the call.\<close>

fun decoders_loop ::
  "string list \<Rightarrow> string \<Rightarrow> string \<Rightarrow> decoder_entry list \<Rightarrow> (string \<times> string list) list
     \<Rightarrow> exn + (string \<times> string list) list" where
  "decoders_loop modes encoding colorspace [] full = Inr full"
| "decoders_loop modes encoding colorspace ((decoder_name, decoder_module) # rest) full =
    (case m_get_output_colorspace decoder_module encoding colorspace of
       Inl e \<Rightarrow> Inl e
     | Inr output_colorspace \<Rightarrow>
         decoders_loop modes encoding colorspace rest
           (if output_colorspace \<in> set modes then record_colorspace full encoding colorspace
            else full))"

fun colorspaces_loop ::
  "string list \<Rightarrow> string \<Rightarrow> (string \<times> decoder_entry list) list \<Rightarrow> (string \<times> string list) list
     \<Rightarrow> exn + (string \<times> string list) list" where
  "colorspaces_loop modes encoding [] full = Inr full"
| "colorspaces_loop modes encoding ((colorspace, decoder_specs) # rest) full =
    (case decoders_loop modes encoding colorspace decoder_specs full of
       Inl e \<Rightarrow> Inl e
     | Inr full' \<Rightarrow> colorspaces_loop modes encoding rest full')"

text \<open>\<open>sorted(encoding_specs.items())\<close> orders the items by colorspace.\<close>

fun encodings_loop ::
  "string list \<Rightarrow> (string \<times> (string \<times> decoder_entry list) list) list
     \<Rightarrow> (string \<times> string list) list \<Rightarrow> exn + (string \<times> string list) list" where
  "encodings_loop modes [] full = Inr full"
| "encodings_loop modes ((encoding, encoding_specs) # rest) full =
    (case colorspaces_loop modes encoding (sort_key fst encoding_specs) full of
       Inl e \<Rightarrow> Inl e
     | Inr full' \<Rightarrow> encodings_loop modes rest full')"

definition get_server_full_csc_modes ::
  "world \<Rightarrow> VideoHelper \<Rightarrow> string list \<Rightarrow> exn + (string \<times> string list) list" where
  "get_server_full_csc_modes w self client_supported_csc_modes =
    encodings_loop client_supported_csc_modes
      (read_table (dec_heap w) (video_decoder_specs self)) []"

text \<open>The inner loop of \<open>get_server_full_csc_modes_for_rgb\<close>, with its \<open>break\<close>.\<close>

fun rgb_dst_loop ::
  "string list \<Rightarrow> string \<Rightarrow> (string \<times> spec list) list \<Rightarrow> string list \<Rightarrow> string list" where
  "rgb_dst_loop target_rgb_modes src_format [] supported = supported"
| "rgb_dst_loop target_rgb_modes src_format ((dst_format, csc_specs) # rest) supported =
    (if dst_format \<in> set target_rgb_modes \<and> csc_specs \<noteq> [] then supported @ [src_format]
     else rgb_dst_loop target_rgb_modes src_format rest supported)"

fun rgb_src_loop ::
  "string list \<Rightarrow> (string \<times> (string \<times> spec list) list) list \<Rightarrow> string list \<Rightarrow> string list" where
  "rgb_src_loop target_rgb_modes [] supported = supported"
| "rgb_src_loop target_rgb_modes ((src_format, specs) # rest) supported =
    rgb_src_loop target_rgb_modes rest (rgb_dst_loop target_rgb_modes src_format specs supported)"

text \<open>The list handed on to \<open>get_server_full_csc_modes\<close>.\<close>

definition supported_csc_modes :: "world \<Rightarrow> VideoHelper \<Rightarrow> string list \<Rightarrow> string list" where
  "supported_csc_modes w self target_rgb_modes =
    sort (rgb_src_loop target_rgb_modes
            (read_table (spec_heap w) (csc_encoder_specs self)) target_rgb_modes)"

definition get_server_full_csc_modes_for_rgb ::
  "world \<Rightarrow> VideoHelper \<Rightarrow> string list \<Rightarrow> exn + (string \<times> string list) list" where
  "get_server_full_csc_modes_for_rgb w self target_rgb_modes =
    get_server_full_csc_modes w self (supported_csc_modes w self target_rgb_modes)"

section \<open>Example modules and registries\<close>

text \<open>
  Three modules in the shape of the real ones: an encoder, a colorspace converter
  whose teardown raises, and a decoder that turns \<open>YUV420P\<close> into \<open>RGB\<close> and
  leaves every other input colorspace as it is.
\<close>

definition no_attr :: "exn + 'a" where
  "no_attr = Inl (Raised ''AttributeError'')"

definition ex_encoder :: codec_module where
  "ex_encoder =
    \<lparr>m_name = ''enc_x264'', m_get_type = Inr ''x264'', m_get_encodings = Inr [''h264''],
     m_get_input_colorspaces = (\<lambda>e. Inr [''YUV420P'']),
     m_get_csc_input_colorspaces = no_attr,
     m_get_output_colorspaces = (\<lambda>c. no_attr),
     m_get_output_colorspace = (\<lambda>e c. no_attr),
     m_get_spec = (\<lambda>e c. Inr (Spec ''x264'' 1)),
     m_Decoder = False, m_cleanup_module = None\<rparr>"

definition ex_csc :: codec_module where
  "ex_csc =
    \<lparr>m_name = ''csc_swscale'', m_get_type = Inr ''swscale'', m_get_encodings = no_attr,
     m_get_input_colorspaces = (\<lambda>e. no_attr),
     m_get_csc_input_colorspaces = Inr [''YUV444P''],
     m_get_output_colorspaces = (\<lambda>c. Inr [''RGB'']),
     m_get_output_colorspace = (\<lambda>e c. no_attr),
     m_get_spec = (\<lambda>a b. Inr (Spec ''swscale'' 2)),
     m_Decoder = False, m_cleanup_module = Some (Raised ''teardown failed'')\<rparr>"

definition ex_decoder :: codec_module where
  "ex_decoder =
    \<lparr>m_name = ''dec_avcodec2'', m_get_type = Inr ''avcodec2'', m_get_encodings = Inr [''V1''],
     m_get_input_colorspaces = (\<lambda>e. Inr [''YUV420P'', ''YUV444P'']),
     m_get_csc_input_colorspaces = no_attr,
     m_get_output_colorspaces = (\<lambda>c. no_attr),
     m_get_output_colorspace = (\<lambda>e c. Inr (if c = ''YUV420P'' then ''RGB'' else c)),
     m_get_spec = (\<lambda>e c. no_attr),
     m_Decoder = True, m_cleanup_module = None\<rparr>"

text \<open>
  An environment with these three installed, and \<open>vpx\<close> both in the encoder
  catalog and loadable.
\<close>

definition ex_env :: env where
  "ex_env =
    \<lparr>ALL_VIDEO_ENCODER_OPTIONS = [''x264'', ''vpx''],
     ALL_CSC_MODULE_OPTIONS = [''swscale''],
     ALL_VIDEO_DECODER_OPTIONS = [''avcodec2''],
     load_codec = (\<lambda>n. None),
     get_codec = (\<lambda>n. if n = ''enc_x264'' then Some ex_encoder
                       else if n = ''enc_vpx'' then Some (ex_encoder\<lparr>m_name := ''enc_vpx''\<rparr>)
                       else if n = ''csc_swscale'' then Some ex_csc
                       else if n = ''dec_avcodec2'' then Some ex_decoder
                       else None)\<rparr>"

definition empty_heap :: "'v heap" where
  "empty_heap = \<lparr>outer_dicts = (\<lambda>a. []), inner_dicts = (\<lambda>a. []), lists = (\<lambda>a. []), next_addr = 0\<rparr>"

definition ex_world0 :: world where
  "ex_world0 = \<lparr>spec_heap = empty_heap, dec_heap = empty_heap\<rparr>"

text \<open>A fresh registry: \<open>VideoHelper()\<close>.\<close>

definition ex_fresh :: "world \<times> VideoHelper" where
  "ex_fresh = VideoHelper_init ex_world0 None None None False"

text \<open>The fresh registry after \<open>add_decoder("V1", "YUV420P", "dec_avcodec2", module)\<close>.\<close>

definition ex_one_decoder :: "world \<times> VideoHelper" where
  "ex_one_decoder =
    (add_decoder (fst ex_fresh) (snd ex_fresh) ''V1'' ''YUV420P'' ''dec_avcodec2'' ex_decoder,
     snd ex_fresh)"

text \<open>The fresh registry with every catalog entry enabled, then initialised.\<close>

definition ex_enabled :: VideoHelper where
  "ex_enabled = (snd ex_fresh)\<lparr>video_encoders := [''x264'', ''vpx''], csc_modules := [''swscale''],
                                 video_decoders := [''avcodec2'']\<rparr>"

definition ex_initialized :: "world \<times> VideoHelper" where
  "ex_initialized = init ex_env (fst ex_fresh) ex_enabled"

text \<open>
  The initialised registry after two module handles were assigned to its cleanup list
  from outside (no function of the file puts a handle there).
\<close>

definition ex_with_cleanup :: VideoHelper where
  "ex_with_cleanup = (snd ex_initialized)\<lparr>cleanup_modules := [ex_csc, ex_decoder]\<rparr>"

text \<open>The fresh registry with no module enabled.\<close>

definition ex_none_enabled :: VideoHelper where
  "ex_none_enabled = snd ex_fresh"

text \<open>The clone of the enabled, not yet initialised registry.\<close>

definition ex_clone :: "world \<times> VideoHelper \<times> VideoHelper" where
  "ex_clone = clone ex_env (fst ex_fresh) ex_enabled"

text \<open>
  A store in which a caller has built \<open>{"h264": {"YUV420P": []}}\<close>, and the registry
  \<open>VideoHelper(vencspecs, init=True)\<close> made from that dictionary.
\<close>

definition ex_empties_store :: world where
  "ex_empties_store =
    \<lparr>spec_heap = \<lparr>outer_dicts = (\<lambda>a. [])(0 := [(''h264'', 1)]),
                  inner_dicts = (\<lambda>a. [])(1 := [(''YUV420P'', 2)]),
                  lists = (\<lambda>a. []), next_addr = 3\<rparr>,
     dec_heap = empty_heap\<rparr>"

definition ex_empties :: "world \<times> VideoHelper" where
  "ex_empties = VideoHelper_init ex_empties_store (Some 0) None None True"

definition ex_empties_clone :: "world \<times> VideoHelper \<times> VideoHelper" where
  "ex_empties_clone = clone ex_env (fst ex_empties) (snd ex_empties)"

text \<open>A decoder module whose \<open>get_output_colorspace\<close> raises.\<close>

definition ex_raising_decoder :: codec_module where
  "ex_raising_decoder =
    ex_decoder\<lparr>m_name := ''dec_bad'', m_get_encodings := Inr [''V2''],
               m_get_output_colorspace := (\<lambda>e c. Inl (Raised ''no output colorspace''))\<rparr>"

text \<open>
  \<open>vh = VideoHelper()\<close>, then \<open>vh.add_decoder("V1", "YUV420P", "dec_avcodec2", module)\<close>,
  \<open>vh.add_decoder("V2", "YUV420P", "dec_bad", bad_module)\<close> and \<open>vh.init()\<close>.
\<close>

definition ex_two_decoders :: "world \<times> VideoHelper" where
  "ex_two_decoders =
    init ex_env
      (add_decoder (fst ex_one_decoder) (snd ex_one_decoder) ''V2'' ''YUV420P'' ''dec_bad''
         ex_raising_decoder)
      (snd ex_one_decoder)"

section \<open>Reading a report\<close>

text \<open>The value found in a report by following keys from the top.\<close>

fun lookup_path :: "info \<Rightarrow> string list \<Rightarrow> info option" where
  "lookup_path i [] = Some i"
| "lookup_path (Dict d) (k # ks) =
    (case map_of d k of None \<Rightarrow> None | Some i \<Rightarrow> lookup_path i ks)"
| "lookup_path (Names l) (k # ks) = None"
| "lookup_path (Status s) (k # ks) = None"

text \<open>Every key of a report, at any depth.\<close>

fun info_keys :: "info \<Rightarrow> string list" where
  "info_keys (Dict d) = concat (map (\<lambda>(k, i). k # info_keys i) d)"
| "info_keys (Names l) = []"
| "info_keys (Status s) = []"

text \<open>Keys made by \<open>fmt_to\<close> contain an underscore; the two status keys do not.\<close>

definition underscore_keys :: "(string \<times> 'a) list \<Rightarrow> bool" where
  "underscore_keys d = (\<forall>k \<in> fst ` set d. CHR ''_'' \<in> set k)"

section \<open>What the negotiation is to compute\<close>

text \<open>
  The decoder entry \<open>d\<close>, asked for its actual output colorspace for this encoding and
  input colorspace, names a colorspace of the peer's set.
\<close>

definition output_in :: "string list \<Rightarrow> string \<Rightarrow> string \<Rightarrow> decoder_entry \<Rightarrow> bool" where
  "output_in modes encoding colorspace d =
    (case m_get_output_colorspace (snd d) encoding colorspace of
       Inr output_colorspace \<Rightarrow> output_colorspace \<in> set modes
     | Inl e \<Rightarrow> False)"

text \<open>
  The input colorspaces recorded for an encoding: one for every (input colorspace,
  decoder entry) pair under that encoding whose output the peer accepts, in the order
  the pairs are visited.
\<close>

definition viable_colorspaces ::
  "string list \<Rightarrow> (string \<times> (string \<times> decoder_entry list) list) list \<Rightarrow> string \<Rightarrow> string list" where
  "viable_colorspaces modes table encoding =
    concat (map (\<lambda>(e, specs).
      if e = encoding
      then concat (map (\<lambda>(colorspace, ds). map (\<lambda>d. colorspace)
                                               (filter (output_in modes encoding colorspace) ds))
                       (sort_key fst specs))
      else []) table)"

text \<open>Duplicates removed, the first occurrence of each element kept in place.\<close>

fun first_seen :: "'a list \<Rightarrow> 'a list" where
  "first_seen [] = []"
| "first_seen (x # xs) = x # first_seen (filter (\<lambda>y. y \<noteq> x) xs)"

text \<open>No decoder entry of the table raises when asked for its output colorspace.\<close>

definition queries_succeed :: "(string \<times> (string \<times> decoder_entry list) list) list \<Rightarrow> bool" where
  "queries_succeed table =
    list_all (\<lambda>(e, specs).
      list_all (\<lambda>(colorspace, ds).
        list_all (\<lambda>d. \<not> isl (m_get_output_colorspace (snd d) e colorspace)) ds) specs) table"

text \<open>The list under a key after more colorspaces were recorded for it.\<close>

definition merge_seen :: "string list option \<Rightarrow> string list \<Rightarrow> string list option" where
  "merge_seen acc l =
    (if l = [] then acc
     else Some (fold (\<lambda>c a. if c \<in> set a then a else a @ [c]) l
                  (case acc of None \<Rightarrow> [] | Some a \<Rightarrow> a)))"

text \<open>
  The input colorspaces of the csc table that are one conversion away from the peer's RGB
  formats: those with at least one non-empty spec list under an output colorspace of the
  given set.
\<close>

definition csc_sources ::
  "string list \<Rightarrow> (string \<times> (string \<times> spec list) list) list \<Rightarrow> string list" where
  "csc_sources target_rgb_modes table =
    map fst (filter (\<lambda>(src, specs).
                       list_ex (\<lambda>(dst, l). dst \<in> set target_rgb_modes \<and> l \<noteq> []) specs) table)"

section \<open>Tables as values, addresses of a table\<close>

text \<open>Every (outer key, inner key, value) triple of a table, in iteration order.\<close>

definition table_entries ::
  "(string \<times> (string \<times> 'v list) list) list \<Rightarrow> (string \<times> string \<times> 'v) list" where
  "table_entries t =
    concat (map (\<lambda>(k1, d). concat (map (\<lambda>(k2, l). map (\<lambda>v. (k1, k2, v)) l) d)) t)"

text \<open>
  A table without the inner keys that hold an empty list and without the outer keys
  that then hold an empty dictionary.
\<close>

definition prune_inner :: "(string \<times> 'v list) list \<Rightarrow> (string \<times> 'v list) list" where
  "prune_inner d = filter (\<lambda>(k2, l). l \<noteq> []) d"

definition prune_table ::
  "(string \<times> (string \<times> 'v list) list) list \<Rightarrow> (string \<times> (string \<times> 'v list) list) list" where
  "prune_table t = filter (\<lambda>(k1, d). d \<noteq> []) (map (\<lambda>(k1, d). (k1, prune_inner d)) t)"

text \<open>
  \<open>setdefault(k1, {}).setdefault(k2, []).append(v)\<close> as seen by a reader of the table.
\<close>

definition inner_add :: "(string \<times> 'v list) list \<Rightarrow> string \<Rightarrow> 'v \<Rightarrow> (string \<times> 'v list) list" where
  "inner_add d k2 v =
    (case map_of d k2 of None \<Rightarrow> d @ [(k2, [v])] | Some l \<Rightarrow> dict_set d k2 (l @ [v]))"

definition add_val ::
  "(string \<times> (string \<times> 'v list) list) list \<Rightarrow> string \<Rightarrow> string \<Rightarrow> 'v
     \<Rightarrow> (string \<times> (string \<times> 'v list) list) list" where
  "add_val t k1 k2 v =
    (case map_of t k1 of
       None \<Rightarrow> t @ [(k1, [(k2, [v])])]
     | Some d \<Rightarrow> dict_set t k1 (inner_add d k2 v))"

text \<open>Dictionaries have no key twice.\<close>

definition distinct_keys :: "(string \<times> (string \<times> 'v list) list) list \<Rightarrow> bool" where
  "distinct_keys t = (distinct (map fst t) \<and> list_all (\<lambda>(k1, d). distinct (map fst d)) t)"

text \<open>The inner dictionaries and the lists that the table at \<open>a\<close> refers to.\<close>

definition table_inner_addrs :: "'v heap \<Rightarrow> addr \<Rightarrow> addr list" where
  "table_inner_addrs h a = map snd (outer_dicts h a)"

definition table_list_addrs :: "'v heap \<Rightarrow> addr \<Rightarrow> addr list" where
  "table_list_addrs h a = concat (map (\<lambda>ia. map snd (inner_dicts h ia)) (table_inner_addrs h a))"

text \<open>
  A well-formed store: every reference held by a dictionary is to an allocated object,
  and no dictionary has a key twice.
\<close>

definition wf_heap :: "'v heap \<Rightarrow> bool" where
  "wf_heap h =
    (\<forall>a.
       distinct (map fst (outer_dicts h a)) \<and> distinct (map fst (inner_dicts h a))
     \<and> list_all (\<lambda>ia. ia < next_addr h) (map snd (outer_dicts h a))
     \<and> list_all (\<lambda>la. la < next_addr h) (map snd (inner_dicts h a)))"

definition wf_registry :: "world \<Rightarrow> VideoHelper \<Rightarrow> bool" where
  "wf_registry w self =
    (wf_heap (spec_heap w) \<and> wf_heap (dec_heap w)
     \<and> video_encoder_specs self < next_addr (spec_heap w)
     \<and> csc_encoder_specs self < next_addr (spec_heap w)
     \<and> video_decoder_specs self < next_addr (dec_heap w))"

text \<open>
  The table at \<open>c\<close> is made of objects allocated at or after \<open>n0\<close> only, and no
  inner dictionary or list of it is referred to twice.
\<close>

definition owns_from :: "addr \<Rightarrow> 'v heap \<Rightarrow> addr \<Rightarrow> bool" where
  "owns_from n0 h c =
    (n0 \<le> c \<and> c < next_addr h
     \<and> list_all (\<lambda>ia. n0 \<le> ia) (table_inner_addrs h c)
     \<and> list_all (\<lambda>la. n0 \<le> la) (table_list_addrs h c)
     \<and> distinct (table_inner_addrs h c) \<and> distinct (table_list_addrs h c))"

text \<open>The table at \<open>a\<close> is made of objects allocated before \<open>n0\<close> only.\<close>

definition lives_below :: "addr \<Rightarrow> 'v heap \<Rightarrow> addr \<Rightarrow> bool" where
  "lives_below n0 h a =
    (a < n0
     \<and> list_all (\<lambda>ia. ia < n0) (table_inner_addrs h a)
     \<and> list_all (\<lambda>la. la < n0) (table_list_addrs h a))"

text \<open>Every object allocated before \<open>n\<close> is the same in both stores.\<close>

definition same_below :: "addr \<Rightarrow> 'v heap \<Rightarrow> 'v heap \<Rightarrow> bool" where
  "same_below n h h' =
    (next_addr h \<le> next_addr h'
     \<and> (\<forall>x < n. outer_dicts h' x = outer_dicts h x \<and> inner_dicts h' x = inner_dicts h x
                 \<and> lists h' x = lists h x))"

text \<open>The walk of \<open>deepish_clone_dict\<close> over a table value, adding into \<open>acc\<close>.\<close>

definition copy_row ::
  "string \<Rightarrow> (string \<times> 'v list) list \<Rightarrow> (string \<times> (string \<times> 'v list) list) list
     \<Rightarrow> (string \<times> (string \<times> 'v list) list) list" where
  "copy_row k1 d acc = fold (\<lambda>(k2, l) t2. fold (\<lambda>v t3. add_val t3 k1 k2 v) l t2) d acc"

definition copy_into ::
  "(string \<times> (string \<times> 'v list) list) list \<Rightarrow> (string \<times> (string \<times> 'v list) list) list
     \<Rightarrow> (string \<times> (string \<times> 'v list) list) list" where
  "copy_into t acc = fold (\<lambda>(k1, d) t1. copy_row k1 d t1) t acc"

text \<open>No inner dictionary and no list of the table is empty.\<close>

definition no_empty_entries :: "(string \<times> (string \<times> 'v list) list) list \<Rightarrow> bool" where
  "no_empty_entries t = list_all (\<lambda>(k1, d). d \<noteq> [] \<and> list_all (\<lambda>(k2, l). l \<noteq> []) d) t"

text \<open>The stores of \<open>w\<close> are well formed and have not shrunk since \<open>w0\<close>.\<close>

definition wf_world_from :: "world \<Rightarrow> world \<Rightarrow> bool" where
  "wf_world_from w0 w =
    (wf_heap (spec_heap w) \<and> wf_heap (dec_heap w)
     \<and> next_addr (spec_heap w0) \<le> next_addr (spec_heap w)
     \<and> next_addr (dec_heap w0) \<le> next_addr (dec_heap w))"

text \<open>
  In the store \<open>h\<close> the table at \<open>c\<close> is a copy of the table at \<open>a\<close>: it is made of
  objects allocated at or after \<open>n0\<close>, the table at \<open>a\<close> of objects allocated before
  \<open>n0\<close>, and it holds the entries of \<open>a\<close> (all of \<open>a\<close> but its empty containers).
\<close>

definition is_copy :: "addr \<Rightarrow> 'v heap \<Rightarrow> addr \<Rightarrow> addr \<Rightarrow> bool" where
  "is_copy n0 h a c =
    (wf_heap h \<and> owns_from n0 h c \<and> lives_below n0 h a
     \<and> read_table h c = prune_table (read_table h a))"

text \<open>No inner dictionary and no list that the table at \<open>a\<close> refers to is empty.\<close>

definition nonempty_table :: "'v heap \<Rightarrow> addr \<Rightarrow> bool" where
  "nonempty_table h a =
    (list_all (\<lambda>ia. inner_dicts h ia \<noteq> []) (table_inner_addrs h a)
     \<and> list_all (\<lambda>la. lists h la \<noteq> []) (table_list_addrs h a))"

section \<open>Properties of set\_modules\<close>

lemmas ex_defs = ex_fresh_def ex_world0_def empty_heap_def VideoHelper_init_def or_new_dict_def
  new_outer_dict_def ex_env_def ex_enabled_def

lemma exclist_set:
  "set (map tl (filter (\<lambda>x. x \<noteq> [] \<and> startswith_dash x) inlist)) = {x. CHR ''-'' # x \<in> set inlist}"
proof (induction inlist)
  case Nil show ?case by simp
next
  case (Cons y ys)
  show ?case
  proof (cases y)
    case Nil
    then show ?thesis using Cons by (simp add: startswith_dash_def)
  next
    case (Cons c cs)
    then show ?thesis using Cons.IH by (auto simp: startswith_dash_def)
  qed
qed

lemma filt_all:
  assumes "''all'' \<in> set inlist"
  shows "filt name inlist cat = ([], filter (\<lambda>x. CHR ''-'' # x \<notin> set inlist) cat)"
proof -
  have inc: "''all'' \<in> set (filter (\<lambda>x. x \<noteq> [] \<and> \<not> startswith_dash x) inlist)"
    using assms by (simp add: startswith_dash_def)
  show ?thesis
    unfolding filt_def Let_def using inc by (simp only: if_True exclist_set mem_Collect_eq)
qed

lemma filt_all_only: "filt name [''all''] cat = ([], cat)"
  by (simp add: filt_all)

lemma filt_all_minus: "filt name [''all'', CHR ''-'' # X] cat = ([], filter (\<lambda>x. x \<noteq> X) cat)"
  by (simp add: filt_all)

text \<open>
  Claim C5. In \<open>set_modules\<close> the token \<open>all\<close> stands for the whole catalog of its
  table, and exclusions (names prefixed with \<open>-\<close>) are applied after that expansion:
  \<open>["all"]\<close> yields the catalog, \<open>["all", "-X"]\<close> yields the catalog without \<open>X\<close>,
  and in general a selection that contains \<open>all\<close> yields the catalog without the
  excluded names, with no warning.
\<close>

theorem set_modules_all_then_exclusions:
  "\<not> initialized self \<Longrightarrow>
     set_modules E self [''all''] [''all''] [''all''] =
       Inr (self\<lparr>video_encoders := ALL_VIDEO_ENCODER_OPTIONS E,
                 csc_modules := ALL_CSC_MODULE_OPTIONS E,
                 video_decoders := ALL_VIDEO_DECODER_OPTIONS E\<rparr>, [])
   \<and> set_modules E self [''all'', CHR ''-'' # X] [''all'', CHR ''-'' # Y] [''all'', CHR ''-'' # Z] =
       Inr (self\<lparr>video_encoders := filter (\<lambda>x. x \<noteq> X) (ALL_VIDEO_ENCODER_OPTIONS E),
                 csc_modules := filter (\<lambda>x. x \<noteq> Y) (ALL_CSC_MODULE_OPTIONS E),
                 video_decoders := filter (\<lambda>x. x \<noteq> Z) (ALL_VIDEO_DECODER_OPTIONS E)\<rparr>, [])
   \<and> (\<forall>venc csc vdec. ''all'' \<in> set venc \<and> ''all'' \<in> set csc \<and> ''all'' \<in> set vdec \<longrightarrow>
        set_modules E self venc csc vdec =
          Inr (self\<lparr>video_encoders := filter (\<lambda>x. CHR ''-'' # x \<notin> set venc) (ALL_VIDEO_ENCODER_OPTIONS E),
                    csc_modules := filter (\<lambda>x. CHR ''-'' # x \<notin> set csc) (ALL_CSC_MODULE_OPTIONS E),
                    video_decoders := filter (\<lambda>x. CHR ''-'' # x \<notin> set vdec) (ALL_VIDEO_DECODER_OPTIONS E)\<rparr>,
               []))"
  by (simp add: set_modules_def filt_all_only filt_all_minus filt_all)

theorem set_modules_all_then_exclusions_witness:
  "\<not> initialized (snd ex_fresh)
   \<and> set_modules ex_env (snd ex_fresh) [''all''] [''all''] [''all''] =
       Inr ((snd ex_fresh)\<lparr>video_encoders := [''x264'', ''vpx''], csc_modules := [''swscale''],
                            video_decoders := [''avcodec2'']\<rparr>, [])
   \<and> set_modules ex_env (snd ex_fresh) [''all'', ''-x264''] [''all'', ''-swscale''] [''all'', ''-vpx''] =
       Inr ((snd ex_fresh)\<lparr>video_encoders := [''vpx''], csc_modules := [],
                            video_decoders := [''avcodec2'']\<rparr>, [])
   \<and> set_modules ex_env (snd ex_fresh) [''-vpx'', ''all''] [''all''] [''nope'', ''all'', ''-avcodec2''] =
       Inr ((snd ex_fresh)\<lparr>video_encoders := [''x264''], csc_modules := [''swscale''],
                            video_decoders := []\<rparr>, [])"
proof -
  have h: "\<not> initialized (snd ex_fresh)" by (simp add: ex_defs)
  have e: "ALL_VIDEO_ENCODER_OPTIONS ex_env = [''x264'', ''vpx'']"
     "ALL_CSC_MODULE_OPTIONS ex_env = [''swscale'']"
     "ALL_VIDEO_DECODER_OPTIONS ex_env = [''avcodec2'']" by (simp_all add: ex_env_def)
  note t = set_modules_all_then_exclusions [OF h, of ex_env "''x264''" "''swscale''" "''vpx''"]
  from t have t1: "set_modules ex_env (snd ex_fresh) [''all''] [''all''] [''all''] =
       Inr ((snd ex_fresh)\<lparr>video_encoders := [''x264'', ''vpx''], csc_modules := [''swscale''],
                            video_decoders := [''avcodec2'']\<rparr>, [])" by (simp add: e)
  from t have t2: "set_modules ex_env (snd ex_fresh) [''all'', ''-x264''] [''all'', ''-swscale''] [''all'', ''-vpx''] =
       Inr ((snd ex_fresh)\<lparr>video_encoders := [''vpx''], csc_modules := [],
                            video_decoders := [''avcodec2'']\<rparr>, [])" by (simp add: e)
  from t have "''all'' \<in> set [''-vpx'', ''all''] \<and> ''all'' \<in> set [''all''] \<and> ''all'' \<in> set [''nope'', ''all'', ''-avcodec2'']
     \<longrightarrow> set_modules ex_env (snd ex_fresh) [''-vpx'', ''all''] [''all''] [''nope'', ''all'', ''-avcodec2''] =
          Inr ((snd ex_fresh)\<lparr>video_encoders := filter (\<lambda>x. CHR ''-'' # x \<notin> set [''-vpx'', ''all'']) (ALL_VIDEO_ENCODER_OPTIONS ex_env),
                    csc_modules := filter (\<lambda>x. CHR ''-'' # x \<notin> set [''all'']) (ALL_CSC_MODULE_OPTIONS ex_env),
                    video_decoders := filter (\<lambda>x. CHR ''-'' # x \<notin> set [''nope'', ''all'', ''-avcodec2'']) (ALL_VIDEO_DECODER_OPTIONS ex_env)\<rparr>,
               [])" by blast
  then have t3: "set_modules ex_env (snd ex_fresh) [''-vpx'', ''all''] [''all''] [''nope'', ''all'', ''-avcodec2''] =
       Inr ((snd ex_fresh)\<lparr>video_encoders := [''x264''], csc_modules := [''swscale''],
                            video_decoders := []\<rparr>, [])" by (simp add: e)
  show ?thesis using h t1 t2 t3 by blast
qed

text \<open>
  Claim C4. A name that is not in the catalog should be reported and dropped. Without
  \<open>all\<close> in the selection, \<open>set_modules\<close> logs "ignoring unknown video encoders: foo"
  and still returns \<open>foo\<close> in the enabled list; with \<open>all\<close> the name is dropped and
  nothing is logged.
\<close>

theorem set_modules_keeps_unknown_name:
  "set_modules ex_env (snd ex_fresh) [''foo''] [] [] =
     Inr ((snd ex_fresh)\<lparr>video_encoders := [''foo'']\<rparr>,
          [WarnIgnoringUnknown ''video encoders'' [''foo'']])
   \<and> ''foo'' \<notin> set (ALL_VIDEO_ENCODER_OPTIONS ex_env)
   \<and> set_modules ex_env (snd ex_fresh) [''all'', ''foo''] [] [] =
     Inr ((snd ex_fresh)\<lparr>video_encoders := [''x264'', ''vpx'']\<rparr>, [])"
  by (simp add: set_modules_def filt_def startswith_dash_def ex_defs)

section \<open>Properties of init and cleanup\<close>

lemma init_initialized: "initialized (snd (init E w self))"
  by (simp add: init_def Let_def)

text \<open>
  Claim C6. \<open>init\<close> is idempotent: on a registry that is already initialised it returns
  with the store, the three tables, the enabled lists and the flag all unchanged; so
  calling \<open>init\<close> again on what \<open>init\<close> produced changes nothing.
\<close>

theorem init_idempotent:
  "(initialized self \<longrightarrow> init E w self = (w, self))
   \<and> init E (fst (init E w self)) (snd (init E w self)) = init E w self"
  by (simp add: init_def Let_def)

theorem init_idempotent_witness:
  "initialized (snd ex_initialized)
   \<and> init ex_env (fst ex_initialized) (snd ex_initialized) = ex_initialized
   \<and> get_encodings (fst ex_initialized) (snd ex_initialized) = [''h264'']"
proof -
  have h: "initialized (snd ex_initialized)"
    unfolding ex_initialized_def by (rule init_initialized)
  have e: "get_encodings (fst ex_initialized) (snd ex_initialized) = [''h264'']"
    by code_simp
  from init_idempotent [of "snd ex_initialized" ex_env "fst ex_initialized"] h e
  show ?thesis by simp
qed

lemma cleanup_loop_eq:
  "cleanup_loop ms (called, events) =
     (called @ ms,
      events @ concat (map (\<lambda>m. case m_cleanup_module m of None \<Rightarrow> []
                                 | Some e \<Rightarrow> [ErrorCleaningUp (m_name m) e]) ms))"
  by (induction ms arbitrary: called events) (auto split: option.splits)

lemma read_table_new_outer_dict:
  "read_table (fst (new_outer_dict h)) (snd (new_outer_dict h)) = []"
  by (simp add: new_outer_dict_def read_table_def)

text \<open>
  Claim C7, as the code has it. On an initialised registry \<open>cleanup\<close> calls
  \<open>cleanup_module()\<close> of every module handle on the cleanup list, in order, whether or not
  earlier ones raised (each failure is only logged), and then leaves the three tables
  empty, the three enabled lists empty, the cleanup list empty and the registry
  uninitialised. On an uninitialised registry it does nothing, so a second \<open>cleanup\<close> is a
  no-op. The constructor starts the cleanup list empty and \<open>init\<close> never adds to it: a
  \<open>cleanup\<close> after \<open>init\<close> tears down what was on the list before \<open>init\<close>, not the
  modules that \<open>init\<close> loaded.
\<close>

theorem cleanup_tears_down_and_resets:
  "(initialized self \<longrightarrow>
      (case cleanup w self of (w', self', called, events) \<Rightarrow>
         called = cleanup_modules self
       \<and> events = concat (map (\<lambda>m. case m_cleanup_module m of None \<Rightarrow> []
                                    | Some e \<Rightarrow> [ErrorCleaningUp (m_name m) e])
                              (cleanup_modules self))
       \<and> read_table (spec_heap w') (video_encoder_specs self') = []
       \<and> read_table (spec_heap w') (csc_encoder_specs self') = []
       \<and> read_table (dec_heap w') (video_decoder_specs self') = []
       \<and> video_encoders self' = [] \<and> csc_modules self' = [] \<and> video_decoders self' = []
       \<and> cleanup_modules self' = [] \<and> \<not> initialized self'))
   \<and> (\<not> initialized self \<longrightarrow> cleanup w self = (w, self, [], []))
   \<and> (case cleanup w self of (w', self', called, events) \<Rightarrow>
         cleanup w' self' = (w', self', [], []))
   \<and> cleanup_modules (snd (VideoHelper_init w0 vencspecs cscspecs vdecspecs flag)) = []
   \<and> cleanup_modules (snd (init E w self)) = cleanup_modules self
   \<and> (case cleanup (fst (init E w self)) (snd (init E w self)) of (w', self', called, events) \<Rightarrow>
         called = cleanup_modules self)"
proof -
  have i: "initialized (snd (init E w self))" by (rule init_initialized)
  have l: "cleanup_modules (snd (init E w self)) = cleanup_modules self"
    by (simp add: init_def Let_def)
  have v: "cleanup_modules (snd (VideoHelper_init w0 vencspecs cscspecs vdecspecs flag)) = []"
    by (simp add: VideoHelper_init_def case_prod_beta)
  have c: "(case cleanup (fst (init E w self)) (snd (init E w self)) of
              (w', self', called, events) \<Rightarrow> called = cleanup_modules self)"
    using i l by (simp add: cleanup_def cleanup_loop_eq case_prod_beta Let_def)
  have m: "(initialized self \<longrightarrow>
      (case cleanup w self of (w', self', called, events) \<Rightarrow>
         called = cleanup_modules self
       \<and> events = concat (map (\<lambda>m. case m_cleanup_module m of None \<Rightarrow> []
                                    | Some e \<Rightarrow> [ErrorCleaningUp (m_name m) e])
                              (cleanup_modules self))
       \<and> read_table (spec_heap w') (video_encoder_specs self') = []
       \<and> read_table (spec_heap w') (csc_encoder_specs self') = []
       \<and> read_table (dec_heap w') (video_decoder_specs self') = []
       \<and> video_encoders self' = [] \<and> csc_modules self' = [] \<and> video_decoders self' = []
       \<and> cleanup_modules self' = [] \<and> \<not> initialized self'))
   \<and> (\<not> initialized self \<longrightarrow> cleanup w self = (w, self, [], []))
   \<and> (case cleanup w self of (w', self', called, events) \<Rightarrow>
         cleanup w' self' = (w', self', [], []))"
    by (simp add: cleanup_def cleanup_loop_eq new_outer_dict_def read_table_def Let_def)
  show ?thesis
    by (rule conjI [OF conjunct1 [OF m] conjI [OF conjunct1 [OF conjunct2 [OF m]]
          conjI [OF conjunct2 [OF conjunct2 [OF m]] conjI [OF v conjI [OF l c]]]]])
qed

theorem cleanup_tears_down_and_resets_witness:
  "initialized ex_with_cleanup
   \<and> (case cleanup (fst ex_initialized) ex_with_cleanup of (w', self', called, events) \<Rightarrow>
         called = [ex_csc, ex_decoder]
       \<and> events = [ErrorCleaningUp ''csc_swscale'' (Raised ''teardown failed'')]
       \<and> get_encodings w' self' = [] \<and> get_csc_inputs w' self' = [] \<and> get_decodings w' self' = []
       \<and> \<not> initialized self'
       \<and> cleanup w' self' = (w', self', [], []))
   \<and> \<not> initialized ex_none_enabled
   \<and> cleanup ex_world0 ex_none_enabled = (ex_world0, ex_none_enabled, [], [])
   \<and> initialized (snd ex_initialized)
   \<and> (case cleanup (fst ex_initialized) (snd ex_initialized) of (w', self', called, events) \<Rightarrow>
         called = [] \<and> events = [] \<and> get_encodings w' self' = [] \<and> \<not> initialized self')"
proof -
  have h: "initialized ex_with_cleanup"
    unfolding ex_with_cleanup_def ex_initialized_def using init_initialized by simp
  have c: "cleanup_modules ex_with_cleanup = [ex_csc, ex_decoder]"
    by (simp add: ex_with_cleanup_def)
  have m: "m_cleanup_module ex_csc = Some (Raised ''teardown failed'')" "m_name ex_csc = ''csc_swscale''"
    "m_cleanup_module ex_decoder = None"
    by (simp_all add: ex_csc_def ex_decoder_def)
  have n: "\<not> initialized ex_none_enabled"
    by (simp add: ex_none_enabled_def ex_fresh_def VideoHelper_init_def or_new_dict_def new_outer_dict_def)
  have hi: "initialized (snd ex_initialized)"
    unfolding ex_initialized_def by (rule init_initialized)
  have ci: "cleanup_modules (snd ex_initialized) = []"
    by (simp add: ex_initialized_def init_def Let_def ex_enabled_def ex_fresh_def
          VideoHelper_init_def case_prod_beta)
  from cleanup_tears_down_and_resets [of ex_with_cleanup "fst ex_initialized"] h c m
  have 1: "(case cleanup (fst ex_initialized) ex_with_cleanup of (w', self', called, events) \<Rightarrow>
         called = [ex_csc, ex_decoder]
       \<and> events = [ErrorCleaningUp ''csc_swscale'' (Raised ''teardown failed'')]
       \<and> get_encodings w' self' = [] \<and> get_csc_inputs w' self' = [] \<and> get_decodings w' self' = []
       \<and> \<not> initialized self'
       \<and> cleanup w' self' = (w', self', [], []))"
    by (auto simp: get_encodings_def get_csc_inputs_def get_decodings_def read_table_def
             split: prod.splits)
  from cleanup_tears_down_and_resets [of ex_none_enabled ex_world0] n
  have 2: "cleanup ex_world0 ex_none_enabled = (ex_world0, ex_none_enabled, [], [])" by blast
  from cleanup_tears_down_and_resets [of "snd ex_initialized" "fst ex_initialized"] hi ci
  have 3: "(case cleanup (fst ex_initialized) (snd ex_initialized) of (w', self', called, events) \<Rightarrow>
         called = [] \<and> events = [] \<and> get_encodings w' self' = [] \<and> \<not> initialized self')"
    by (auto simp: get_encodings_def read_table_def split: prod.splits)
  show ?thesis by (intro conjI) (rule h 1 n 2 hi 3)+
qed

text \<open>
  Claim C7 as stated has \<open>cleanup\<close> call the teardown of every loaded module. \<open>init\<close>
  on the example registry loads four modules and fills the tables from them; the
  \<open>cleanup\<close> that follows calls no teardown at all.
\<close>

theorem cleanup_skips_modules_loaded_by_init:
  "loaded_modules ex_env ex_enabled =
     [ex_encoder, ex_encoder\<lparr>m_name := ''enc_vpx''\<rparr>, ex_csc, ex_decoder]
   \<and> ex_initialized = init ex_env (fst ex_fresh) ex_enabled
   \<and> initialized (snd ex_initialized)
   \<and> get_encodings (fst ex_initialized) (snd ex_initialized) = [''h264'']
   \<and> get_csc_inputs (fst ex_initialized) (snd ex_initialized) = [''YUV444P'']
   \<and> get_decodings (fst ex_initialized) (snd ex_initialized) = [''V1'']
   \<and> fst (snd (snd (cleanup (fst ex_initialized) (snd ex_initialized)))) = []"
proof -
  have 1: "loaded_modules ex_env ex_enabled =
     [ex_encoder, ex_encoder\<lparr>m_name := ''enc_vpx''\<rparr>, ex_csc, ex_decoder]"
    by (simp add: loaded_modules_def loaded_by_def ex_env_def ex_enabled_def
          get_encoder_module_name_def get_csc_module_name_def get_decoder_module_name_def)
  have 2: "ex_initialized = init ex_env (fst ex_fresh) ex_enabled" by (rule ex_initialized_def)
  have 3: "initialized (snd ex_initialized)"
    unfolding ex_initialized_def by (rule init_initialized)
  have 4: "get_encodings (fst ex_initialized) (snd ex_initialized) = [''h264'']" by code_simp
  have 5: "get_csc_inputs (fst ex_initialized) (snd ex_initialized) = [''YUV444P'']" by code_simp
  have 6: "get_decodings (fst ex_initialized) (snd ex_initialized) = [''V1'']" by code_simp
  have ci: "cleanup_modules (snd ex_initialized) = []"
    by (simp add: ex_initialized_def init_def Let_def ex_enabled_def ex_fresh_def
          VideoHelper_init_def case_prod_beta)
  have 7: "fst (snd (snd (cleanup (fst ex_initialized) (snd ex_initialized)))) = []"
    using 3 ci by (simp add: cleanup_def case_prod_beta Let_def)
  show ?thesis by (intro conjI) (rule 1 2 3 4 5 6 7)+
qed

section \<open>Properties of the accessors\<close>

lemma map_of_read_table:
  "map_of (read_table h a) key = map_option (read_inner h) (map_of (outer_dicts h a) key)"
  unfolding read_table_def by (induction "outer_dicts h a" arbitrary: a) (auto simp: map_of_map)

lemma table_get_eq:
  "table_get h a key = (case map_of (read_table h a) key of Some d \<Rightarrow> d | None \<Rightarrow> [])"
  by (simp add: table_get_def map_of_read_table split: option.splits)

lemma table_get_absent:
  "key \<notin> set (map fst (outer_dicts h a)) \<Longrightarrow> table_get h a key = []"
  by (auto simp: table_get_def split: option.splits dest: map_of_SomeD intro: rev_image_eqI)

text \<open>
  Claim C8. \<open>get_encoder_specs\<close>, \<open>get_csc_specs\<close> and \<open>get_decoder_specs\<close> always
  return a value: the inner mapping stored under the key, or an empty mapping when the key
  is absent. In particular, after \<open>init\<close>, an encoding that \<open>get_encodings\<close> does not
  list has an empty mapping.
\<close>

theorem get_specs_never_fail:
  "get_encoder_specs w self key =
     (case map_of (read_table (spec_heap w) (video_encoder_specs self)) key of
        Some d \<Rightarrow> d | None \<Rightarrow> [])
   \<and> get_csc_specs w self key =
     (case map_of (read_table (spec_heap w) (csc_encoder_specs self)) key of
        Some d \<Rightarrow> d | None \<Rightarrow> [])
   \<and> get_decoder_specs w self key =
     (case map_of (read_table (dec_heap w) (video_decoder_specs self)) key of
        Some d \<Rightarrow> d | None \<Rightarrow> [])
   \<and> (key \<notin> set (get_encodings (fst (init E w self)) (snd (init E w self))) \<longrightarrow>
        get_encoder_specs (fst (init E w self)) (snd (init E w self)) key = [])"
  by (simp add: get_encoder_specs_def get_csc_specs_def get_decoder_specs_def get_encodings_def
        table_get_eq [symmetric] table_get_absent)

theorem get_specs_never_fail_witness:
  "''vp8'' \<notin> set (get_encodings (fst (init ex_env (fst ex_fresh) ex_enabled))
                                (snd (init ex_env (fst ex_fresh) ex_enabled)))
   \<and> get_encoder_specs (fst (init ex_env (fst ex_fresh) ex_enabled))
                       (snd (init ex_env (fst ex_fresh) ex_enabled)) ''vp8'' = []
   \<and> get_encoder_specs (fst (init ex_env (fst ex_fresh) ex_enabled))
                       (snd (init ex_env (fst ex_fresh) ex_enabled)) ''h264'' =
       [(''YUV420P'', [Spec ''x264'' 1, Spec ''x264'' 1])]"
proof -
  have h: "''vp8'' \<notin> set (get_encodings (fst (init ex_env (fst ex_fresh) ex_enabled))
                                (snd (init ex_env (fst ex_fresh) ex_enabled)))"
    by code_simp
  have e: "get_encoder_specs (fst (init ex_env (fst ex_fresh) ex_enabled))
                       (snd (init ex_env (fst ex_fresh) ex_enabled)) ''h264'' =
       [(''YUV420P'', [Spec ''x264'' 1, Spec ''x264'' 1])]"
    by code_simp
  from get_specs_never_fail [of "fst ex_fresh" ex_enabled "''vp8''" ex_env] h e
  show ?thesis by blast
qed

section \<open>Properties of get\_info and the installed defaults\<close>

lemma map_of_dict_set: "map_of (dict_set d k v) = (map_of d)(k \<mapsto> v)"
  by (induction d) auto

lemma keys_dict_set: "fst ` set (dict_set d k v) = insert k (fst ` set d)"
proof -
  have "dom (map_of (dict_set d k v)) = insert k (dom (map_of d))"
    by (simp add: map_of_dict_set)
  then show ?thesis by (simp add: dom_map_of_conv_image_fst)
qed

lemma map_of_status_dict:
  "map_of (status_dict catalog status d0) x =
     (if x \<in> set catalog then Some (Status (status x)) else map_of d0 x)"
  unfolding status_dict_def
  by (induction catalog arbitrary: d0) (auto simp: map_of_dict_set)

lemma keys_status_dict:
  "fst ` set (status_dict catalog status d0) = set catalog \<union> fst ` set d0"
  unfolding status_dict_def
  by (induction catalog arbitrary: d0) (auto simp: keys_dict_set)

lemma keys_setdefault_append: "fst ` set (setdefault_append d k v) = insert k (fst ` set d)"
  by (auto simp: setdefault_append_def keys_dict_set split: option.splits)

lemma fold_preserves:
  assumes "Inv acc" and "\<And>y acc'. y \<in> set ys \<Longrightarrow> Inv acc' \<Longrightarrow> Inv (step y acc')"
  shows "Inv (fold step ys acc)"
  using assms by (induction ys arbitrary: acc) auto

lemma underscore_keys_setdefault_append:
  "underscore_keys d \<Longrightarrow> underscore_keys (setdefault_append d (fmt_to a b) v)"
  by (simp add: underscore_keys_def keys_setdefault_append fmt_to_def)

lemma underscore_keys_encoding_info: "underscore_keys (encoding_info w self)"
  unfolding encoding_info_def
  apply (rule fold_preserves)
   apply (simp add: underscore_keys_def)
  apply (clarsimp)
  apply (rule fold_preserves)
   apply assumption
  apply (clarsimp)
  apply (rule fold_preserves)
   apply assumption
  apply (erule underscore_keys_setdefault_append)
  done

lemma underscore_keys_None:
  "underscore_keys d \<Longrightarrow> CHR ''_'' \<notin> set key \<Longrightarrow> map_of (map (\<lambda>(k, l). (k, Names l)) d) key = None"
  by (force simp: underscore_keys_def map_of_eq_None_iff)

lemma get_info_eq:
  "get_info E w self =
     Inr [(''encoding'',
           Dict (map (\<lambda>(k, l). (k, Names l)) (encoding_info w self)
                 @ [(''video-encoder'',
                     Dict (status_dict (ALL_VIDEO_ENCODER_OPTIONS E)
                            (\<lambda>x. modstatus x (get_DEFAULT_VIDEO_ENCODERS E) (video_encoders self)) [])),
                    (''csc-module'',
                     Dict (status_dict (ALL_CSC_MODULE_OPTIONS E)
                            (\<lambda>x. modstatus x (get_DEFAULT_CSC_MODULES E) (csc_modules self)) []))])),
          (''decoding'', Dict (map (\<lambda>(k, l). (k, Names l)) (decoding_info w self))),
          (''csc'', Dict (map (\<lambda>(k, l). (k, Names l)) (csc_info w self)))]"
proof -
  let ?einfo = "map (\<lambda>(k, l). (k, Names l)) (encoding_info w self)"
  have n1: "map_of ?einfo ''video-encoder'' = None"
    by (rule underscore_keys_None [OF underscore_keys_encoding_info]) simp
  have n2: "map_of ?einfo ''csc-module'' = None"
    by (rule underscore_keys_None [OF underscore_keys_encoding_info]) simp
  have s1: "status_section ?einfo ''video-encoder'' cat f =
              Inr (?einfo @ [(''video-encoder'', Dict (status_dict cat f []))])" for cat f
    by (simp add: status_section_def n1)
  have s2: "status_section (?einfo @ [(''video-encoder'', v)]) ''csc-module'' cat f =
              Inr ((?einfo @ [(''video-encoder'', v)]) @ [(''csc-module'', Dict (status_dict cat f []))])"
    for cat f v
    by (simp add: status_section_def n2 map_add_def)
  show ?thesis
    unfolding get_info_def Let_def s1 sum.case s2 by simp
qed

lemma encoder_status_lookup:
  "get_info E w self = Inr d \<Longrightarrow>
   lookup_path (Dict d) [''encoding'', ''video-encoder'', x] =
     (if x \<in> set (ALL_VIDEO_ENCODER_OPTIONS E)
      then Some (Status (modstatus x (get_DEFAULT_VIDEO_ENCODERS E) (video_encoders self)))
      else None)"
proof -
  let ?einfo = "map (\<lambda>(k, l). (k, Names l)) (encoding_info w self)"
  assume "get_info E w self = Inr d"
  then have d: "d = projr (get_info E w self)" by simp
  have n1: "map_of ?einfo ''video-encoder'' = None"
    by (rule underscore_keys_None [OF underscore_keys_encoding_info]) simp
  show ?thesis
    unfolding d get_info_eq by (simp add: n1 map_add_def map_of_status_dict)
qed

lemma csc_status_lookup:
  "get_info E w self = Inr d \<Longrightarrow>
   lookup_path (Dict d) [''encoding'', ''csc-module'', x] =
     (if x \<in> set (ALL_CSC_MODULE_OPTIONS E)
      then Some (Status (modstatus x (get_DEFAULT_CSC_MODULES E) (csc_modules self)))
      else None)"
proof -
  let ?einfo = "map (\<lambda>(k, l). (k, Names l)) (encoding_info w self)"
  assume "get_info E w self = Inr d"
  then have d: "d = projr (get_info E w self)" by simp
  have n2: "map_of ?einfo ''csc-module'' = None"
    by (rule underscore_keys_None [OF underscore_keys_encoding_info]) simp
  show ?thesis
    unfolding d get_info_eq by (simp add: n2 map_add_def map_of_status_dict)
qed


lemma names_dict_no_status:
  "lookup_path (Dict (map (\<lambda>(k, l). (k, Names l)) d)) p \<noteq> Some (Status s)"
proof (cases p)
  case Nil then show ?thesis by simp
next
  case (Cons k ks)
  show ?thesis
  proof (cases "map_of d k")
    case None
    then show ?thesis using Cons by (simp add: map_of_map)
  next
    case (Some l)
    then show ?thesis using Cons by (cases ks) (simp_all add: map_of_map)
  qed
qed

lemma status_dict_path:
  "lookup_path (Dict (status_dict catalog status [])) p = Some (Status s) \<Longrightarrow>
   \<exists>x. p = [x] \<and> x \<in> set catalog"
proof (cases p)
  case Nil
  assume "lookup_path (Dict (status_dict catalog status [])) p = Some (Status s)"
  then show ?thesis using Nil by simp
next
  case (Cons x xs)
  assume a: "lookup_path (Dict (status_dict catalog status [])) p = Some (Status s)"
  show ?thesis
  proof (cases "x \<in> set catalog")
    case True
    then show ?thesis using a Cons by (cases xs) (simp_all add: map_of_status_dict)
  next
    case False
    then show ?thesis using a Cons by (simp add: map_of_status_dict)
  qed
qed

lemma status_only_for_encoders_and_csc:
  assumes g: "get_info E w self = Inr d"
      and l: "lookup_path (Dict d) p = Some (Status s)"
  shows "\<exists>x. (p = [''encoding'', ''video-encoder'', x] \<and> x \<in> set (ALL_VIDEO_ENCODER_OPTIONS E))
           \<or> (p = [''encoding'', ''csc-module'', x] \<and> x \<in> set (ALL_CSC_MODULE_OPTIONS E))"
proof -
  let ?einfo = "map (\<lambda>(k, l). (k, Names l)) (encoding_info w self)"
  let ?venc = "status_dict (ALL_VIDEO_ENCODER_OPTIONS E)
                 (\<lambda>x. modstatus x (get_DEFAULT_VIDEO_ENCODERS E) (video_encoders self)) []"
  let ?cscm = "status_dict (ALL_CSC_MODULE_OPTIONS E)
                 (\<lambda>x. modstatus x (get_DEFAULT_CSC_MODULES E) (csc_modules self)) []"
  have d: "d = [(''encoding'', Dict (?einfo @ [(''video-encoder'', Dict ?venc), (''csc-module'', Dict ?cscm)])),
                (''decoding'', Dict (map (\<lambda>(k, l). (k, Names l)) (decoding_info w self))),
                (''csc'', Dict (map (\<lambda>(k, l). (k, Names l)) (csc_info w self)))]"
    using g unfolding get_info_eq by simp
  obtain k ks where p: "p = k # ks" using l by (cases p) simp_all
  consider (enc) "k = ''encoding''" | (dec) "k = ''decoding''" | (csc) "k = ''csc''"
    | (other) "k \<noteq> ''encoding''" "k \<noteq> ''decoding''" "k \<noteq> ''csc''" by blast
  then show ?thesis
  proof cases
    case dec
    then show ?thesis using l names_dict_no_status unfolding d p by simp
  next
    case csc
    then show ?thesis using l names_dict_no_status unfolding d p by simp
  next
    case other
    then show ?thesis using l unfolding d p by simp
  next
    case enc
    then have l1: "lookup_path (Dict (?einfo @ [(''video-encoder'', Dict ?venc), (''csc-module'', Dict ?cscm)])) ks
                    = Some (Status s)"
      using l unfolding d p by simp
    obtain k2 ks2 where ks: "ks = k2 # ks2" using l1 by (cases ks) simp_all
    show ?thesis
    proof (cases "map_of ?einfo k2")
      case (Some i)
      then obtain nl where "i = Names nl" by (auto simp: map_of_map)
      then show ?thesis using l1 Some unfolding ks by (cases ks2) (simp_all add: map_add_def)
    next
      case None
      consider (v) "k2 = ''video-encoder''" | (c) "k2 = ''csc-module''"
        | (o) "k2 \<noteq> ''video-encoder''" "k2 \<noteq> ''csc-module''" by blast
      then show ?thesis
      proof cases
        case v
        then have "lookup_path (Dict ?venc) ks2 = Some (Status s)"
          using l1 None unfolding ks by (simp add: map_add_def)
        from status_dict_path [OF this] show ?thesis using enc v p ks by auto
      next
        case c
        then have "lookup_path (Dict ?cscm) ks2 = Some (Status s)"
          using l1 None unfolding ks by (simp add: map_add_def)
        from status_dict_path [OF this] show ?thesis using enc c p ks by auto
      next
        case o
        then show ?thesis using l1 None unfolding ks by (simp add: map_add_def)
      qed
    qed
  qed
qed

text \<open>
  Claim C9, as the code has it. \<open>get_info\<close> always returns a report; for every module of
  the encoder catalog (under \<open>encoding / video-encoder\<close>) and of the csc catalog (under
  \<open>encoding / csc-module\<close>) it holds a status: \<open>active\<close> if the module is in the enabled
  list, else \<open>disabled\<close> if it is in the freshly computed installed defaults, else
  \<open>not found\<close>. The report holds no other status: decoder modules get none.
\<close>

theorem get_info_module_status:
  "\<exists>d. get_info E w self = Inr d
     \<and> (\<forall>x \<in> set (ALL_VIDEO_ENCODER_OPTIONS E).
          lookup_path (Dict d) [''encoding'', ''video-encoder'', x] =
            Some (Status (if x \<in> set (video_encoders self) then ''active''
                          else if x \<in> set (get_DEFAULT_VIDEO_ENCODERS E) then ''disabled''
                          else ''not found'')))
     \<and> (\<forall>x \<in> set (ALL_CSC_MODULE_OPTIONS E).
          lookup_path (Dict d) [''encoding'', ''csc-module'', x] =
            Some (Status (if x \<in> set (csc_modules self) then ''active''
                          else if x \<in> set (get_DEFAULT_CSC_MODULES E) then ''disabled''
                          else ''not found'')))
     \<and> (\<forall>p s. lookup_path (Dict d) p = Some (Status s) \<longrightarrow>
          (\<exists>x. (p = [''encoding'', ''video-encoder'', x] \<and> x \<in> set (ALL_VIDEO_ENCODER_OPTIONS E))
              \<or> (p = [''encoding'', ''csc-module'', x] \<and> x \<in> set (ALL_CSC_MODULE_OPTIONS E))))"
proof -
  obtain d where d: "get_info E w self = Inr d" by (simp add: get_info_eq)
  show ?thesis
    using d encoder_status_lookup [OF d] csc_status_lookup [OF d]
      status_only_for_encoders_and_csc [OF d]
    by (auto simp: modstatus_def)
qed


theorem get_info_module_status_witness:
  "''x264'' \<in> set (ALL_VIDEO_ENCODER_OPTIONS ex_env)
   \<and> ''swscale'' \<in> set (ALL_CSC_MODULE_OPTIONS ex_env)
   \<and> (\<exists>d. get_info ex_env (fst ex_initialized) (snd ex_initialized) = Inr d
          \<and> lookup_path (Dict d) [''encoding'', ''video-encoder'', ''x264''] = Some (Status ''active'')
          \<and> lookup_path (Dict d) [''encoding'', ''csc-module'', ''swscale''] = Some (Status ''active'')
          \<and> lookup_path (Dict d) [''decoding'', ''V1_to_YUV420P''] \<noteq> Some (Status ''active''))"
proof -
  have c: "''x264'' \<in> set (ALL_VIDEO_ENCODER_OPTIONS ex_env)"
          "''swscale'' \<in> set (ALL_CSC_MODULE_OPTIONS ex_env)"
    by (simp_all add: ex_env_def)
  have v: "''x264'' \<in> set (video_encoders (snd ex_initialized))"
          "''swscale'' \<in> set (csc_modules (snd ex_initialized))"
    by code_simp+
  from get_info_module_status [of ex_env "fst ex_initialized" "snd ex_initialized"]
  obtain d where d: "get_info ex_env (fst ex_initialized) (snd ex_initialized) = Inr d"
    and e: "\<forall>x \<in> set (ALL_VIDEO_ENCODER_OPTIONS ex_env).
          lookup_path (Dict d) [''encoding'', ''video-encoder'', x] =
            Some (Status (if x \<in> set (video_encoders (snd ex_initialized)) then ''active''
                          else if x \<in> set (get_DEFAULT_VIDEO_ENCODERS ex_env) then ''disabled''
                          else ''not found''))"
    and s: "\<forall>x \<in> set (ALL_CSC_MODULE_OPTIONS ex_env).
          lookup_path (Dict d) [''encoding'', ''csc-module'', x] =
            Some (Status (if x \<in> set (csc_modules (snd ex_initialized)) then ''active''
                          else if x \<in> set (get_DEFAULT_CSC_MODULES ex_env) then ''disabled''
                          else ''not found''))"
    and o: "\<forall>p s. lookup_path (Dict d) p = Some (Status s) \<longrightarrow>
          (\<exists>x. (p = [''encoding'', ''video-encoder'', x] \<and> x \<in> set (ALL_VIDEO_ENCODER_OPTIONS ex_env))
              \<or> (p = [''encoding'', ''csc-module'', x] \<and> x \<in> set (ALL_CSC_MODULE_OPTIONS ex_env)))"
    by blast
  have 1: "lookup_path (Dict d) [''encoding'', ''video-encoder'', ''x264''] = Some (Status ''active'')"
    using e c(1) v(1) by simp
  have 2: "lookup_path (Dict d) [''encoding'', ''csc-module'', ''swscale''] = Some (Status ''active'')"
    using s c(2) v(2) by simp
  have 3: "lookup_path (Dict d) [''decoding'', ''V1_to_YUV420P''] \<noteq> Some (Status ''active'')"
    using o by fastforce
  show ?thesis using c d 1 2 3 by blast
qed

text \<open>
  Claim C9 as stated also promises a status for every decoder of the catalog. The decoder
  \<open>avcodec2\<close> is in the catalog and enabled, and no key of the report names it.
\<close>

theorem get_info_no_decoder_status:
  "''avcodec2'' \<in> set (ALL_VIDEO_DECODER_OPTIONS ex_env)
   \<and> ''avcodec2'' \<in> set (video_decoders (snd ex_initialized))
   \<and> get_info ex_env (fst ex_initialized) (snd ex_initialized) =
       Inr [(''encoding'',
             Dict [(''YUV420P_to_h264'', Names [''x264'', ''x264'']),
                   (''video-encoder'', Dict [(''x264'', Status ''active''), (''vpx'', Status ''active'')]),
                   (''csc-module'', Dict [(''swscale'', Status ''active'')])]),
            (''decoding'',
             Dict [(''V1_to_YUV420P'', Names [''dec_avcodec2'']),
                   (''V1_to_YUV444P'', Names [''dec_avcodec2''])]),
            (''csc'', Dict [(''YUV444P_to_RGB'', Names [''swscale''])])]
   \<and> ''avcodec2'' \<notin> set (info_keys (Dict (projr (get_info ex_env (fst ex_initialized)
                                                        (snd ex_initialized)))))"
  by code_simp

section \<open>Installed defaults\<close>

lemma default_encoders_loop_eq:
  "default_encoders_loop E xs acc =
     (case find (\<lambda>x. get_codec E (get_encoder_module_name x) \<noteq> None) xs of
        None \<Rightarrow> acc | Some x \<Rightarrow> acc @ [x])"
  by (induction xs) (auto split: option.splits)

lemma default_csc_loop_eq:
  "default_csc_loop E xs acc = acc @ filter (\<lambda>x. get_codec E (get_csc_module_name x) \<noteq> None) xs"
  by (induction xs arbitrary: acc) (auto split: option.splits)

lemma default_decoders_loop_eq:
  "default_decoders_loop E xs acc =
     acc @ filter (\<lambda>x. get_codec E (get_decoder_module_name x) \<noteq> None) xs"
  by (induction xs arbitrary: acc) (auto split: option.splits)

text \<open>
  Claim C10. \<open>get_DEFAULT_VIDEO_ENCODERS\<close> returns at most one name, the first entry of
  the encoder catalog whose codec is loaded, while \<open>get_DEFAULT_CSC_MODULES\<close> and
  \<open>get_DEFAULT_VIDEO_DECODERS\<close> return every such entry of their catalogs. So for an
  encoder that is not enabled, \<open>get_info\<close> reports \<open>disabled\<close> exactly when it is that
  first installed encoder, and \<open>not found\<close> otherwise.
\<close>

theorem default_encoders_only_first:
  "get_DEFAULT_VIDEO_ENCODERS E =
     (case find (\<lambda>x. get_codec E (get_encoder_module_name x) \<noteq> None)
                (ALL_VIDEO_ENCODER_OPTIONS E) of
        None \<Rightarrow> [] | Some x \<Rightarrow> [x])
   \<and> length (get_DEFAULT_VIDEO_ENCODERS E) \<le> 1
   \<and> get_DEFAULT_CSC_MODULES E =
       filter (\<lambda>x. get_codec E (get_csc_module_name x) \<noteq> None) (ALL_CSC_MODULE_OPTIONS E)
   \<and> get_DEFAULT_VIDEO_DECODERS E =
       filter (\<lambda>x. get_codec E (get_decoder_module_name x) \<noteq> None) (ALL_VIDEO_DECODER_OPTIONS E)
   \<and> (\<forall>x \<in> set (ALL_VIDEO_ENCODER_OPTIONS E). x \<notin> set (video_encoders self) \<longrightarrow>
        (\<exists>d. get_info E w self = Inr d
            \<and> lookup_path (Dict d) [''encoding'', ''video-encoder'', x] =
                Some (Status (if find (\<lambda>x. get_codec E (get_encoder_module_name x) \<noteq> None)
                                      (ALL_VIDEO_ENCODER_OPTIONS E) = Some x
                              then ''disabled'' else ''not found''))))"
proof -
  let ?f = "find (\<lambda>x. get_codec E (get_encoder_module_name x) \<noteq> None) (ALL_VIDEO_ENCODER_OPTIONS E)"
  have 1: "get_DEFAULT_VIDEO_ENCODERS E = (case ?f of None \<Rightarrow> [] | Some x \<Rightarrow> [x])"
    by (simp add: get_DEFAULT_VIDEO_ENCODERS_def default_encoders_loop_eq split: option.splits)
  have 2: "length (get_DEFAULT_VIDEO_ENCODERS E) \<le> 1"
    unfolding 1 by (simp split: option.splits)
  have 3: "get_DEFAULT_CSC_MODULES E =
       filter (\<lambda>x. get_codec E (get_csc_module_name x) \<noteq> None) (ALL_CSC_MODULE_OPTIONS E)"
    by (simp add: get_DEFAULT_CSC_MODULES_def default_csc_loop_eq)
  have 4: "get_DEFAULT_VIDEO_DECODERS E =
       filter (\<lambda>x. get_codec E (get_decoder_module_name x) \<noteq> None) (ALL_VIDEO_DECODER_OPTIONS E)"
    by (simp add: get_DEFAULT_VIDEO_DECODERS_def default_decoders_loop_eq)
  obtain d where d: "get_info E w self = Inr d" by (simp add: get_info_eq)
  have m: "x \<in> set (get_DEFAULT_VIDEO_ENCODERS E) \<longleftrightarrow> ?f = Some x" for x
    unfolding 1 by (auto split: option.splits)
  have 5: "\<forall>x \<in> set (ALL_VIDEO_ENCODER_OPTIONS E). x \<notin> set (video_encoders self) \<longrightarrow>
        (\<exists>d. get_info E w self = Inr d
            \<and> lookup_path (Dict d) [''encoding'', ''video-encoder'', x] =
                Some (Status (if ?f = Some x then ''disabled'' else ''not found'')))"
    using d encoder_status_lookup [OF d] by (auto simp: modstatus_def m)
  show ?thesis using 1 2 3 4 5 by blast
qed

theorem default_encoders_only_first_witness:
  "''vpx'' \<in> set (ALL_VIDEO_ENCODER_OPTIONS ex_env)
   \<and> ''vpx'' \<notin> set (video_encoders ex_none_enabled)
   \<and> get_codec ex_env (get_encoder_module_name ''vpx'') \<noteq> None
   \<and> get_DEFAULT_VIDEO_ENCODERS ex_env = [''x264'']
   \<and> (\<exists>d. get_info ex_env (fst ex_fresh) ex_none_enabled = Inr d
          \<and> lookup_path (Dict d) [''encoding'', ''video-encoder'', ''vpx''] = Some (Status ''not found'')
          \<and> lookup_path (Dict d) [''encoding'', ''video-encoder'', ''x264''] = Some (Status ''disabled''))"
proof -
  have a: "''vpx'' \<in> set (ALL_VIDEO_ENCODER_OPTIONS ex_env)" "''x264'' \<in> set (ALL_VIDEO_ENCODER_OPTIONS ex_env)"
    by (simp_all add: ex_env_def)
  have b: "''vpx'' \<notin> set (video_encoders ex_none_enabled)" "''x264'' \<notin> set (video_encoders ex_none_enabled)"
    by code_simp+
  have c: "get_codec ex_env (get_encoder_module_name ''vpx'') \<noteq> None"
    by (simp add: ex_env_def get_encoder_module_name_def)
  have f: "find (\<lambda>x. get_codec ex_env (get_encoder_module_name x) \<noteq> None)
             (ALL_VIDEO_ENCODER_OPTIONS ex_env) = Some ''x264''"
    by (simp add: ex_env_def get_encoder_module_name_def)
  note t = default_encoders_only_first [of ex_env ex_none_enabled "fst ex_fresh"]
  from t f have g: "get_DEFAULT_VIDEO_ENCODERS ex_env = [''x264'']" by simp
  from t a(1) b(1) f obtain d where d: "get_info ex_env (fst ex_fresh) ex_none_enabled = Inr d"
    and v: "lookup_path (Dict d) [''encoding'', ''video-encoder'', ''vpx''] = Some (Status ''not found'')"
    by auto
  from t a(2) b(2) f d have x: "lookup_path (Dict d) [''encoding'', ''video-encoder'', ''x264''] = Some (Status ''disabled'')"
    by auto
  show ?thesis using a b c g d v x by blast
qed

section \<open>Properties of the negotiation\<close>

lemma fold_add_new:
  "fold (\<lambda>c a. if c \<in> set a then a else a @ [c]) cs l = l @ first_seen (filter (\<lambda>c. c \<notin> set l) cs)"
proof (induction cs arbitrary: l)
  case Nil show ?case by simp
next
  case (Cons c cs)
  show ?case
  proof (cases "c \<in> set l")
    case True then show ?thesis using Cons by simp
  next
    case False
    have "filter (\<lambda>y. y \<noteq> c) (filter (\<lambda>c. c \<notin> set l) cs) = filter (\<lambda>x. x \<notin> set (l @ [c])) cs"
      by (induction cs) auto
    then show ?thesis using False Cons [of "l @ [c]"] by simp
  qed
qed

lemma merge_seen_None: "merge_seen None l = (if l = [] then None else Some (first_seen l))"
  by (simp add: merge_seen_def fold_add_new)

lemma merge_seen_Nil: "merge_seen acc [] = acc"
  by (simp add: merge_seen_def)

lemma merge_seen_append: "merge_seen (merge_seen acc l1) l2 = merge_seen acc (l1 @ l2)"
  by (simp add: merge_seen_def)

lemma map_of_record_colorspace:
  "map_of (record_colorspace full e c) e' =
     (if e' = e then merge_seen (map_of full e) [c] else map_of full e')"
  by (auto simp: record_colorspace_def merge_seen_def map_of_dict_set map_add_def
           split: option.splits)

lemma keys_list_dict_set:
  "map_of d k = Some v0 \<Longrightarrow> map fst (dict_set d k v) = map fst d"
  by (induction d) (auto split: if_splits)

lemma distinct_record_colorspace:
  "distinct (map fst full) \<Longrightarrow> distinct (map fst (record_colorspace full e c))"
  by (auto simp: record_colorspace_def keys_list_dict_set map_of_eq_None_iff
           split: option.splits)

lemma decoders_loop_result:
  assumes "list_all (\<lambda>d. \<not> isl (m_get_output_colorspace (snd d) e cs)) ds"
  shows "\<exists>full'. decoders_loop modes e cs ds full = Inr full'
           \<and> (distinct (map fst full) \<longrightarrow> distinct (map fst full'))
           \<and> (\<forall>e'. map_of full' e' =
                 (if e' = e
                  then merge_seen (map_of full e) (map (\<lambda>d. cs) (filter (output_in modes e cs) ds))
                  else map_of full e'))"
  using assms
proof (induction ds arbitrary: full)
  case Nil
  show ?case by (simp add: merge_seen_Nil)
next
  case (Cons d ds)
  obtain name m where d: "d = (name, m)" by (cases d)
  from Cons.prems d obtain out where out: "m_get_output_colorspace m e cs = Inr out"
    by (cases "m_get_output_colorspace m e cs") auto
  from Cons.prems have rest: "list_all (\<lambda>d. \<not> isl (m_get_output_colorspace (snd d) e cs)) ds"
    by simp
  let ?full1 = "if out \<in> set modes then record_colorspace full e cs else full"
  from Cons.IH [OF rest, of ?full1] obtain full' where
    r: "decoders_loop modes e cs ds ?full1 = Inr full'"
    and dk: "distinct (map fst ?full1) \<longrightarrow> distinct (map fst full')"
    and mo: "\<forall>e'. map_of full' e' =
                 (if e' = e
                  then merge_seen (map_of ?full1 e) (map (\<lambda>d. cs) (filter (output_in modes e cs) ds))
                  else map_of ?full1 e')"
    by blast
  have 1: "decoders_loop modes e cs (d # ds) full = Inr full'"
    using r by (simp add: d out)
  have 2: "distinct (map fst full) \<longrightarrow> distinct (map fst full')"
    using dk by (simp add: distinct_record_colorspace)
  have 3: "map_of full' e' =
                 (if e' = e
                  then merge_seen (map_of full e) (map (\<lambda>d. cs) (filter (output_in modes e cs) (d # ds)))
                  else map_of full e')" for e'
  proof (cases "out \<in> set modes")
    case True
    then have o: "output_in modes e cs d" by (simp add: output_in_def d out)
    show ?thesis using mo True o
      by (simp add: map_of_record_colorspace merge_seen_append)
  next
    case False
    then have o: "\<not> output_in modes e cs d" by (simp add: output_in_def d out)
    show ?thesis using mo False o by simp
  qed
  show ?case using 1 2 3 by blast
qed

lemma colorspaces_loop_result:
  assumes "list_all (\<lambda>(cs, ds). list_all (\<lambda>d. \<not> isl (m_get_output_colorspace (snd d) e cs)) ds) items"
  shows "\<exists>full'. colorspaces_loop modes e items full = Inr full'
           \<and> (distinct (map fst full) \<longrightarrow> distinct (map fst full'))
           \<and> (\<forall>e'. map_of full' e' =
                 (if e' = e
                  then merge_seen (map_of full e)
                         (concat (map (\<lambda>(cs, ds). map (\<lambda>d. cs) (filter (output_in modes e cs) ds))
                                      items))
                  else map_of full e'))"
  using assms
proof (induction items arbitrary: full)
  case Nil
  show ?case by (simp add: merge_seen_Nil)
next
  case (Cons item items)
  obtain cs ds where item: "item = (cs, ds)" by (cases item)
  from Cons.prems item have ok: "list_all (\<lambda>d. \<not> isl (m_get_output_colorspace (snd d) e cs)) ds"
    and rest: "list_all (\<lambda>(cs, ds). list_all (\<lambda>d. \<not> isl (m_get_output_colorspace (snd d) e cs)) ds) items"
    by simp_all
  from decoders_loop_result [OF ok, of modes full] obtain full1 where
    r1: "decoders_loop modes e cs ds full = Inr full1"
    and d1: "distinct (map fst full) \<longrightarrow> distinct (map fst full1)"
    and m1: "\<forall>e'. map_of full1 e' =
                 (if e' = e
                  then merge_seen (map_of full e) (map (\<lambda>d. cs) (filter (output_in modes e cs) ds))
                  else map_of full e')"
    by blast
  from Cons.IH [OF rest, of full1] obtain full' where
    r2: "colorspaces_loop modes e items full1 = Inr full'"
    and d2: "distinct (map fst full1) \<longrightarrow> distinct (map fst full')"
    and m2: "\<forall>e'. map_of full' e' =
                 (if e' = e
                  then merge_seen (map_of full1 e)
                         (concat (map (\<lambda>(cs, ds). map (\<lambda>d. cs) (filter (output_in modes e cs) ds))
                                      items))
                  else map_of full1 e')"
    by blast
  have 1: "colorspaces_loop modes e (item # items) full = Inr full'"
    using r1 r2 by (simp add: item)
  have 2: "distinct (map fst full) \<longrightarrow> distinct (map fst full')"
    using d1 d2 by blast
  have 3: "map_of full' e' =
                 (if e' = e
                  then merge_seen (map_of full e)
                         (concat (map (\<lambda>(cs, ds). map (\<lambda>d. cs) (filter (output_in modes e cs) ds))
                                      (item # items)))
                  else map_of full e')" for e'
    using m1 m2 by (simp add: item merge_seen_append)
  show ?case using 1 2 3 by blast
qed

lemma encodings_loop_result:
  assumes "queries_succeed table"
  shows "\<exists>full'. encodings_loop modes table full = Inr full'
           \<and> (distinct (map fst full) \<longrightarrow> distinct (map fst full'))
           \<and> (\<forall>e'. map_of full' e' = merge_seen (map_of full e') (viable_colorspaces modes table e'))"
  using assms
proof (induction table arbitrary: full)
  case Nil
  show ?case by (simp add: viable_colorspaces_def merge_seen_Nil)
next
  case (Cons row table)
  obtain e specs where row: "row = (e, specs)" by (cases row)
  from Cons.prems row have
    ok: "list_all (\<lambda>(cs, ds). list_all (\<lambda>d. \<not> isl (m_get_output_colorspace (snd d) e cs)) ds)
           (sort_key fst specs)"
    and rest: "queries_succeed table"
    by (simp_all add: queries_succeed_def list_all_iff)
  from colorspaces_loop_result [OF ok, of modes full] obtain full1 where
    r1: "colorspaces_loop modes e (sort_key fst specs) full = Inr full1"
    and d1: "distinct (map fst full) \<longrightarrow> distinct (map fst full1)"
    and m1: "\<forall>e'. map_of full1 e' =
                 (if e' = e
                  then merge_seen (map_of full e)
                         (concat (map (\<lambda>(cs, ds). map (\<lambda>d. cs) (filter (output_in modes e cs) ds))
                                      (sort_key fst specs)))
                  else map_of full e')"
    by blast
  from Cons.IH [OF rest, of full1] obtain full' where
    r2: "encodings_loop modes table full1 = Inr full'"
    and d2: "distinct (map fst full1) \<longrightarrow> distinct (map fst full')"
    and m2: "\<forall>e'. map_of full' e' = merge_seen (map_of full1 e') (viable_colorspaces modes table e')"
    by blast
  have 1: "encodings_loop modes (row # table) full = Inr full'"
    using r1 r2 by (simp add: row)
  have 2: "distinct (map fst full) \<longrightarrow> distinct (map fst full')"
    using d1 d2 by blast
  have 3: "map_of full' e' = merge_seen (map_of full e') (viable_colorspaces modes (row # table) e')"
    for e'
  proof (cases "e' = e")
    case True
    have v: "viable_colorspaces modes (row # table) e =
               concat (map (\<lambda>(cs, ds). map (\<lambda>d. cs) (filter (output_in modes e cs) ds))
                           (sort_key fst specs))
               @ viable_colorspaces modes table e"
      by (simp add: viable_colorspaces_def row)
    show ?thesis using m1 m2 True by (simp add: v merge_seen_append)
  next
    case False
    have v: "viable_colorspaces modes (row # table) e' = viable_colorspaces modes table e'"
      using False by (simp add: viable_colorspaces_def row)
    show ?thesis using m1 m2 False by (simp add: v)
  qed
  show ?case using 1 2 3 by blast
qed

lemma viable_nonempty_iff:
  "viable_colorspaces modes table e \<noteq> [] \<longleftrightarrow>
     (\<exists>specs cs ds d out. (e, specs) \<in> set table \<and> (cs, ds) \<in> set specs \<and> d \<in> set ds
        \<and> m_get_output_colorspace (snd d) e cs = Inr out \<and> out \<in> set modes)"
proof -
  have o: "output_in modes e cs d \<longleftrightarrow> (\<exists>out. m_get_output_colorspace (snd d) e cs = Inr out \<and> out \<in> set modes)"
    for cs d
    by (auto simp: output_in_def split: sum.splits)
  have inner: "concat (map (\<lambda>(cs, ds). map (\<lambda>d. cs) (filter (output_in modes e cs) ds))
                           (sort_key fst specs)) \<noteq> [] \<longleftrightarrow>
               (\<exists>cs ds d. (cs, ds) \<in> set specs \<and> d \<in> set ds \<and> output_in modes e cs d)" for specs
  proof -
    have "concat (map (\<lambda>(cs, ds). map (\<lambda>d. cs) (filter (output_in modes e cs) ds))
                           (sort_key fst specs)) \<noteq> [] \<longleftrightarrow>
          (\<exists>item \<in> set (sort_key fst specs).
              (case item of (cs, ds) \<Rightarrow> map (\<lambda>d. cs) (filter (output_in modes e cs) ds)) \<noteq> [])"
      by simp
    also have "\<dots> \<longleftrightarrow> (\<exists>item \<in> set specs. \<exists>d \<in> set (snd item). output_in modes e (fst item) d)"
      by (simp add: filter_empty_conv case_prod_beta)
    also have "\<dots> \<longleftrightarrow> (\<exists>cs ds d. (cs, ds) \<in> set specs \<and> d \<in> set ds \<and> output_in modes e cs d)"
      by force
    finally show ?thesis .
  qed
  have "viable_colorspaces modes table e \<noteq> [] \<longleftrightarrow>
          (\<exists>row \<in> set table. fst row = e \<and>
             concat (map (\<lambda>(cs, ds). map (\<lambda>d. cs) (filter (output_in modes e cs) ds))
                           (sort_key fst (snd row))) \<noteq> [])"
  proof (induction table)
    case Nil
    show ?case by (simp add: viable_colorspaces_def)
  next
    case (Cons row table)
    have c: "viable_colorspaces modes (row # table) e =
               (if fst row = e
                then concat (map (\<lambda>(cs, ds). map (\<lambda>d. cs) (filter (output_in modes e cs) ds))
                           (sort_key fst (snd row)))
                else []) @ viable_colorspaces modes table e"
      by (simp add: viable_colorspaces_def case_prod_beta)
    show ?case unfolding c using Cons.IH by auto
  qed
  also have "\<dots> \<longleftrightarrow> (\<exists>row \<in> set table. fst row = e \<and>
                (\<exists>cs ds d. (cs, ds) \<in> set (snd row) \<and> d \<in> set ds \<and> output_in modes e cs d))"
    by (simp only: inner)
  also have "\<dots> \<longleftrightarrow> (\<exists>specs cs ds d. (e, specs) \<in> set table \<and> (cs, ds) \<in> set specs \<and> d \<in> set ds
             \<and> output_in modes e cs d)"
    by force
  finally have "viable_colorspaces modes table e \<noteq> [] \<longleftrightarrow>
          (\<exists>specs cs ds d. (e, specs) \<in> set table \<and> (cs, ds) \<in> set specs \<and> d \<in> set ds
             \<and> output_in modes e cs d)" .
  then show ?thesis by (simp add: o) 
qed


lemma set_first_seen: "set (first_seen xs) = set xs"
  by (induction xs rule: first_seen.induct) auto

lemma distinct_first_seen: "distinct (first_seen xs)"
  by (induction xs rule: first_seen.induct) (auto simp: set_first_seen)

lemma ex_one_decoder_table:
  "read_table (dec_heap (fst ex_one_decoder)) (video_decoder_specs (snd ex_one_decoder)) =
     [(''V1'', [(''YUV420P'', [(''dec_avcodec2'', ex_decoder)])])]"
  by (simp add: ex_one_decoder_def ex_fresh_def ex_world0_def empty_heap_def VideoHelper_init_def
        or_new_dict_def new_outer_dict_def add_decoder_def table_add_def outer_setdefault_def
        inner_setdefault_def list_append_def read_table_def read_inner_def)

lemma decoders_loop_cong:
  assumes "set m1 = set m2"
  shows "decoders_loop m1 e cs ds full = decoders_loop m2 e cs ds full"
proof (induction ds arbitrary: full)
  case Nil show ?case by simp
next
  case (Cons d ds)
  obtain name m where d: "d = (name, m)" by (cases d)
  show ?case
  proof (cases "m_get_output_colorspace m e cs")
    case (Inl x)
    then show ?thesis by (simp add: d)
  next
    case (Inr out)
    have "(out \<in> set m1) = (out \<in> set m2)" by (simp only: assms)
    then show ?thesis using Inr by (simp add: d Cons.IH)
  qed
qed

lemma colorspaces_loop_cong:
  assumes "set m1 = set m2"
  shows "colorspaces_loop m1 e items full = colorspaces_loop m2 e items full"
proof (induction items arbitrary: full)
  case Nil show ?case by simp
next
  case (Cons item items)
  obtain cs ds where item: "item = (cs, ds)" by (cases item)
  show ?case
    by (simp add: item decoders_loop_cong [OF assms] Cons.IH split: sum.splits)
qed

lemma encodings_loop_cong:
  assumes "set m1 = set m2"
  shows "encodings_loop m1 table full = encodings_loop m2 table full"
proof (induction table arbitrary: full)
  case Nil show ?case by simp
next
  case (Cons row table)
  obtain e specs where row: "row = (e, specs)" by (cases row)
  show ?case
    by (simp add: row colorspaces_loop_cong [OF assms] Cons.IH split: sum.splits)
qed

lemma get_server_full_csc_modes_cong:
  "set m1 = set m2 \<Longrightarrow> get_server_full_csc_modes w self m1 = get_server_full_csc_modes w self m2"
  unfolding get_server_full_csc_modes_def by (rule encodings_loop_cong)

lemma rgb_dst_loop_eq:
  "rgb_dst_loop targets src specs supported =
     (if list_ex (\<lambda>(dst, l). dst \<in> set targets \<and> l \<noteq> []) specs then supported @ [src]
      else supported)"
proof (induction specs)
  case Nil show ?case by simp
next
  case (Cons item specs)
  obtain dst l where item: "item = (dst, l)" by (cases item)
  show ?case unfolding item using Cons.IH by simp
qed

lemma rgb_src_loop_eq:
  "rgb_src_loop targets table supported = supported @ csc_sources targets table"
proof (induction table arbitrary: supported)
  case Nil show ?case by (simp add: csc_sources_def)
next
  case (Cons row table)
  obtain src specs where row: "row = (src, specs)" by (cases row)
  have c: "csc_sources targets (row # table) =
             (if list_ex (\<lambda>(dst, l). dst \<in> set targets \<and> l \<noteq> []) specs then [src] else [])
             @ csc_sources targets table"
    by (simp add: csc_sources_def row)
  show ?case unfolding c using Cons.IH by (simp add: row rgb_dst_loop_eq)
qed

lemma set_csc_sources:
  "set (csc_sources targets table) =
     {src. \<exists>specs dst l. (src, specs) \<in> set table \<and> (dst, l) \<in> set specs
             \<and> dst \<in> set targets \<and> l \<noteq> []}"
proof -
  have "set (csc_sources targets table) =
          fst ` {row \<in> set table. \<exists>item \<in> set (snd row). fst item \<in> set targets \<and> snd item \<noteq> []}"
    by (simp add: csc_sources_def list_ex_iff case_prod_beta)
  also have "\<dots> = {src. \<exists>specs dst l. (src, specs) \<in> set table \<and> (dst, l) \<in> set specs
             \<and> dst \<in> set targets \<and> l \<noteq> []}"
    by force
  finally show ?thesis .
qed

text \<open>
  Claim C2. \<open>get_server_full_csc_modes_for_rgb\<close> extends the given RGB formats with every
  input colorspace of the csc table that has a non-empty spec list under one of those
  formats, sorts the result, and returns what \<open>get_server_full_csc_modes\<close> returns for
  it. The list it passes on is sorted but may repeat a colorspace; since only membership
  is tested, the result is that of the deduplicated, sorted set.
\<close>

theorem get_server_full_csc_modes_for_rgb_extends:
  "get_server_full_csc_modes_for_rgb w self targets =
     get_server_full_csc_modes w self
       (sort (remdups (targets @ csc_sources targets
                                   (read_table (spec_heap w) (csc_encoder_specs self)))))
   \<and> supported_csc_modes w self targets =
       sort (targets @ csc_sources targets (read_table (spec_heap w) (csc_encoder_specs self)))
   \<and> sorted (supported_csc_modes w self targets)
   \<and> set (supported_csc_modes w self targets) =
       set targets \<union>
       {src. \<exists>specs dst l. (src, specs) \<in> set (read_table (spec_heap w) (csc_encoder_specs self))
               \<and> (dst, l) \<in> set specs \<and> dst \<in> set targets \<and> l \<noteq> []}"
proof -
  let ?T = "read_table (spec_heap w) (csc_encoder_specs self)"
  have 2: "supported_csc_modes w self targets = sort (targets @ csc_sources targets ?T)"
    by (simp add: supported_csc_modes_def rgb_src_loop_eq)
  have 3: "sorted (supported_csc_modes w self targets)"
    unfolding 2 by simp
  have 4: "set (supported_csc_modes w self targets) =
       set targets \<union>
       {src. \<exists>specs dst l. (src, specs) \<in> set ?T \<and> (dst, l) \<in> set specs
               \<and> dst \<in> set targets \<and> l \<noteq> []}"
    unfolding 2 by (simp add: set_csc_sources)
  have "set (supported_csc_modes w self targets) =
          set (sort (remdups (targets @ csc_sources targets ?T)))"
    unfolding 2 by simp
  then have 1: "get_server_full_csc_modes_for_rgb w self targets =
     get_server_full_csc_modes w self (sort (remdups (targets @ csc_sources targets ?T)))"
    unfolding get_server_full_csc_modes_for_rgb_def by (rule get_server_full_csc_modes_cong)
  show ?thesis by (intro conjI) (rule 1 2 3 4)+
qed

lemmas init_defs = init_def init_video_encoders_options_def init_csc_options_def
  init_video_decoders_options_def init_video_encoder_option_def init_csc_option_def
  init_video_decoder_option_def add_encoder_spec_def add_csc_spec_def add_decoder_def
  table_add_def outer_setdefault_def inner_setdefault_def list_append_def
  get_encoder_module_name_def get_csc_module_name_def get_decoder_module_name_def

lemmas ex_module_defs = ex_encoder_def ex_csc_def ex_decoder_def no_attr_def

lemma ex_initialized_csc_table:
  "read_table (spec_heap (fst ex_initialized)) (csc_encoder_specs (snd ex_initialized)) =
     [(''YUV444P'', [(''RGB'', [Spec ''swscale'' 2])])]"
  by code_simp

lemma ex_initialized_decoder_table:
  "read_table (dec_heap (fst ex_initialized)) (video_decoder_specs (snd ex_initialized)) =
     [(''V1'', [(''YUV420P'', [(''dec_avcodec2'', ex_decoder)]),
               (''YUV444P'', [(''dec_avcodec2'', ex_decoder)])])]"
  unfolding ex_initialized_def ex_enabled_def ex_fresh_def ex_world0_def empty_heap_def
    VideoHelper_init_def or_new_dict_def new_outer_dict_def ex_env_def
  by (simp add: init_defs read_table_def read_inner_def Let_def ex_module_defs)


theorem get_server_full_csc_modes_for_rgb_extends_witness:
  "supported_csc_modes (fst ex_initialized) (snd ex_initialized) [''RGB''] = [''RGB'', ''YUV444P'']
   \<and> get_server_full_csc_modes_for_rgb (fst ex_initialized) (snd ex_initialized) [''RGB''] =
       Inr [(''V1'', [''YUV420P'', ''YUV444P''])]
   \<and> get_server_full_csc_modes (fst ex_initialized) (snd ex_initialized) [''RGB''] =
       Inr [(''V1'', [''YUV420P''])]"
proof -
  note t = get_server_full_csc_modes_for_rgb_extends
             [of "fst ex_initialized" "snd ex_initialized" "[''RGB'']"]
  have c: "csc_sources [''RGB'']
             (read_table (spec_heap (fst ex_initialized)) (csc_encoder_specs (snd ex_initialized)))
           = [''YUV444P'']"
    unfolding ex_initialized_csc_table by (simp add: csc_sources_def)
  have o: "sort [''RGB'', ''YUV444P''] = [''RGB'', ''YUV444P'']"
    by simp
  have o2: "sort_key fst [(''YUV420P'', [(''dec_avcodec2'', ex_decoder)]),
                          (''YUV444P'', [(''dec_avcodec2'', ex_decoder)])] =
              [(''YUV420P'', [(''dec_avcodec2'', ex_decoder)]),
               (''YUV444P'', [(''dec_avcodec2'', ex_decoder)])]"
    by simp
  from t have s: "supported_csc_modes (fst ex_initialized) (snd ex_initialized) [''RGB''] =
                    [''RGB'', ''YUV444P'']"
    unfolding c by (simp add: o)
  from t have "get_server_full_csc_modes_for_rgb (fst ex_initialized) (snd ex_initialized) [''RGB''] =
     get_server_full_csc_modes (fst ex_initialized) (snd ex_initialized) [''RGB'', ''YUV444P'']"
    unfolding c by (simp add: o)
  also have "\<dots> = Inr [(''V1'', [''YUV420P'', ''YUV444P''])]"
    unfolding get_server_full_csc_modes_def ex_initialized_decoder_table
    by (simp add: o2 ex_decoder_def record_colorspace_def)
  finally have r: "get_server_full_csc_modes_for_rgb (fst ex_initialized) (snd ex_initialized) [''RGB''] =
       Inr [(''V1'', [''YUV420P'', ''YUV444P''])]" .
  have p: "get_server_full_csc_modes (fst ex_initialized) (snd ex_initialized) [''RGB''] =
       Inr [(''V1'', [''YUV420P''])]"
    unfolding get_server_full_csc_modes_def ex_initialized_decoder_table
    by (simp add: o2 ex_decoder_def record_colorspace_def)
  show ?thesis by (intro conjI) (rule s r p)+
qed

section \<open>Copying a table entry by entry\<close>

lemma map_fst_dict_set_Some: "map_of d k = Some v0 \<Longrightarrow> map fst (dict_set d k v) = map fst d"
  by (induction d) (auto split: if_splits)

lemma dict_set_append_last:
  "k \<notin> fst ` set acc \<Longrightarrow> dict_set (acc @ [(k, v0)]) k v = acc @ [(k, v)]"
  by (induction acc) auto

lemma map_of_append_last:
  "k \<notin> fst ` set acc \<Longrightarrow> map_of (acc @ [(k, v0)]) k = Some v0"
  by (induction acc) auto

lemma map_of_None_keys: "k \<notin> fst ` set acc \<Longrightarrow> map_of acc k = None"
  by (simp add: map_of_eq_None_iff)

text \<open>Appending the values of one list under an inner key that is the last one.\<close>

lemma fold_inner_add_last:
  "k2 \<notin> fst ` set dacc \<Longrightarrow>
   fold (\<lambda>v dd. inner_add dd k2 v) l (dacc @ [(k2, l0)]) = dacc @ [(k2, l0 @ l)]"
proof (induction l arbitrary: l0)
  case Nil show ?case by simp
next
  case (Cons v l)
  have "inner_add (dacc @ [(k2, l0)]) k2 v = dacc @ [(k2, l0 @ [v])]"
    using Cons.prems
    by (simp add: inner_add_def map_of_append_last dict_set_append_last del: map_of_append)
  then show ?case using Cons.IH [OF Cons.prems, of "l0 @ [v]"] by simp
qed

lemma fold_inner_add_new:
  "k2 \<notin> fst ` set dacc \<Longrightarrow>
   fold (\<lambda>v dd. inner_add dd k2 v) l dacc = (if l = [] then dacc else dacc @ [(k2, l)])"
proof (cases l)
  case Nil then show ?thesis by simp
next
  case (Cons v l')
  assume k: "k2 \<notin> fst ` set dacc"
  have "inner_add dacc k2 v = dacc @ [(k2, [v])]"
    using k by (simp add: inner_add_def map_of_None_keys)
  then show ?thesis using Cons fold_inner_add_last [OF k, of l' "[v]"] by simp
qed

lemma fold_inner_rows:
  "distinct (map fst d) \<Longrightarrow> fst ` set dacc \<inter> fst ` set d = {} \<Longrightarrow>
   fold (\<lambda>(k2, l) dd. fold (\<lambda>v dd. inner_add dd k2 v) l dd) d dacc = dacc @ prune_inner d"
proof (induction d arbitrary: dacc)
  case Nil show ?case by (simp add: prune_inner_def)
next
  case (Cons row d)
  obtain k2 l where row: "row = (k2, l)" by (cases row)
  from Cons.prems row have k: "k2 \<notin> fst ` set dacc" by auto
  let ?dacc' = "if l = [] then dacc else dacc @ [(k2, l)]"
  from Cons.prems row have d: "distinct (map fst d)" and "k2 \<notin> fst ` set d"
    and "fst ` set dacc \<inter> fst ` set d = {}" by auto
  then have disj: "fst ` set ?dacc' \<inter> fst ` set d = {}" by auto
  have "fold (\<lambda>(k2, l) dd. fold (\<lambda>v dd. inner_add dd k2 v) l dd) (row # d) dacc =
        fold (\<lambda>(k2, l) dd. fold (\<lambda>v dd. inner_add dd k2 v) l dd) d ?dacc'"
    by (simp add: row fold_inner_add_new [OF k])
  also have "\<dots> = ?dacc' @ prune_inner d"
    by (rule Cons.IH [OF d disj])
  also have "\<dots> = dacc @ prune_inner (row # d)"
    by (simp add: prune_inner_def row)
  finally show ?case .
qed


lemma add_val_last:
  "k1 \<notin> fst ` set acc0 \<Longrightarrow>
   add_val (acc0 @ [(k1, dcur)]) k1 k2 v = acc0 @ [(k1, inner_add dcur k2 v)]"
  by (simp add: add_val_def map_of_append_last dict_set_append_last del: map_of_append)

lemma fold_add_val_last:
  "k1 \<notin> fst ` set acc0 \<Longrightarrow>
   fold (\<lambda>v t3. add_val t3 k1 k2 v) l (acc0 @ [(k1, dcur)]) =
     acc0 @ [(k1, fold (\<lambda>v dd. inner_add dd k2 v) l dcur)]"
  by (induction l arbitrary: dcur) (simp_all add: add_val_last)

lemma copy_row_last:
  "k1 \<notin> fst ` set acc0 \<Longrightarrow>
   copy_row k1 d (acc0 @ [(k1, dcur)]) =
     acc0 @ [(k1, fold (\<lambda>(k2, l) dd. fold (\<lambda>v dd. inner_add dd k2 v) l dd) d dcur)]"
  unfolding copy_row_def
  by (induction d arbitrary: dcur) (simp_all add: fold_add_val_last case_prod_beta)

lemma fold_add_val_new:
  assumes k: "k1 \<notin> fst ` set acc"
  shows "fold (\<lambda>v t3. add_val t3 k1 k2 v) l acc = (if l = [] then acc else acc @ [(k1, [(k2, l)])])"
proof (cases l)
  case Nil then show ?thesis by simp
next
  case (Cons v l')
  have "add_val acc k1 k2 v = acc @ [(k1, [(k2, [v])])]"
    using k by (simp add: add_val_def map_of_None_keys)
  moreover have "fold (\<lambda>v dd. inner_add dd k2 v) l' ([] @ [(k2, [v])]) = [] @ [(k2, [v] @ l')]"
    by (rule fold_inner_add_last) simp
  ultimately show ?thesis using Cons fold_add_val_last [OF k, of k2 l' "[(k2, [v])]"] by simp
qed

lemma copy_row_new:
  "k1 \<notin> fst ` set acc \<Longrightarrow> distinct (map fst d) \<Longrightarrow>
   copy_row k1 d acc = (if prune_inner d = [] then acc else acc @ [(k1, prune_inner d)])"
proof (induction d)
  case Nil show ?case by (simp add: copy_row_def prune_inner_def)
next
  case (Cons row d)
  obtain k2 l where row: "row = (k2, l)" by (cases row)
  from Cons.prems row have dd: "distinct (map fst d)" and k2: "k2 \<notin> fst ` set d" by auto
  have step: "copy_row k1 (row # d) acc = copy_row k1 d (fold (\<lambda>v t3. add_val t3 k1 k2 v) l acc)"
    by (simp add: copy_row_def row)
  show ?case
  proof (cases "l = []")
    case True
    then have "prune_inner (row # d) = prune_inner d" by (simp add: prune_inner_def row)
    then show ?thesis using step True Cons.IH [OF Cons.prems(1) dd] by simp
  next
    case False
    have "copy_row k1 (row # d) acc = copy_row k1 d (acc @ [(k1, [(k2, l)])])"
      using step False by (simp add: fold_add_val_new [OF Cons.prems(1)])
    also have "\<dots> = acc @ [(k1, fold (\<lambda>(k2, l) dd. fold (\<lambda>v dd. inner_add dd k2 v) l dd) d [(k2, l)])]"
      by (rule copy_row_last [OF Cons.prems(1)])
    also have "fold (\<lambda>(k2, l) dd. fold (\<lambda>v dd. inner_add dd k2 v) l dd) d [(k2, l)]
                 = [(k2, l)] @ prune_inner d"
      by (rule fold_inner_rows [OF dd]) (use k2 in simp)
    also have "[(k2, l)] @ prune_inner d = prune_inner (row # d)"
      using False by (simp add: prune_inner_def row)
    finally show ?thesis using False by (simp add: prune_inner_def row)
  qed
qed

lemma copy_into_eq:
  "distinct_keys t \<Longrightarrow> fst ` set acc \<inter> fst ` set t = {} \<Longrightarrow>
   copy_into t acc = acc @ prune_table t"
proof (induction t arbitrary: acc)
  case Nil show ?case by (simp add: copy_into_def prune_table_def)
next
  case (Cons row t)
  obtain k1 d where row: "row = (k1, d)" by (cases row)
  from Cons.prems row have k: "k1 \<notin> fst ` set acc" by auto
  from Cons.prems row have dk: "distinct_keys t" and dd: "distinct (map fst d)"
    and k1: "k1 \<notin> fst ` set t" and disj0: "fst ` set acc \<inter> fst ` set t = {}"
    by (auto simp: distinct_keys_def)
  let ?acc' = "if prune_inner d = [] then acc else acc @ [(k1, prune_inner d)]"
  have disj: "fst ` set ?acc' \<inter> fst ` set t = {}" using disj0 k1 by auto
  have "copy_into (row # t) acc = copy_into t (copy_row k1 d acc)"
    by (simp add: copy_into_def row)
  also have "\<dots> = copy_into t ?acc'" by (simp only: copy_row_new [OF k dd])
  also have "\<dots> = ?acc' @ prune_table t" by (rule Cons.IH [OF dk disj])
  also have "\<dots> = acc @ prune_table (row # t)" by (simp add: prune_table_def row)
  finally show ?case .
qed

lemma table_entries_prune: "table_entries (prune_table t) = table_entries t"
proof (induction t)
  case Nil show ?case by (simp add: prune_table_def table_entries_def)
next
  case (Cons row t)
  obtain k1 d where row: "row = (k1, d)" by (cases row)
  have inner: "concat (map (\<lambda>(k2, l). map (\<lambda>v. (k1, k2, v)) l) (prune_inner d)) =
               concat (map (\<lambda>(k2, l). map (\<lambda>v. (k1, k2, v)) l) d)"
    unfolding prune_inner_def by (induction d) auto
  have e: "table_entries (x # xs) = (case x of (k1, d) \<Rightarrow> concat (map (\<lambda>(k2, l). map (\<lambda>v. (k1, k2, v)) l) d))
             @ table_entries xs" for x :: "string \<times> (string \<times> 'a list) list" and xs
    by (simp add: table_entries_def)
  have p: "prune_table (row # t) = (if prune_inner d = [] then [] else [(k1, prune_inner d)]) @ prune_table t"
    by (simp add: prune_table_def row)
  have lhs: "table_entries (prune_table (row # t)) =
               concat (map (\<lambda>(k2, l). map (\<lambda>v. (k1, k2, v)) l) (prune_inner d)) @ table_entries t"
  proof (cases "prune_inner d = []")
    case True
    then show ?thesis unfolding p using Cons.IH by simp
  next
    case False
    then show ?thesis unfolding p using Cons.IH by (simp add: e)
  qed
  have rhs: "table_entries (row # t) =
               concat (map (\<lambda>(k2, l). map (\<lambda>v. (k1, k2, v)) l) d) @ table_entries t"
    unfolding row e by simp
  show ?case unfolding lhs rhs inner ..
qed

lemma prune_table_no_empty: "no_empty_entries t \<Longrightarrow> prune_table t = t"
proof (induction t)
  case Nil show ?case by (simp add: prune_table_def)
next
  case (Cons row t)
  obtain k1 d where row: "row = (k1, d)" by (cases row)
  from Cons.prems row have d: "d \<noteq> []" and l: "list_all (\<lambda>(k2, l). l \<noteq> []) d"
    and r: "no_empty_entries t" by (simp_all add: no_empty_entries_def)
  have "prune_inner d = d"
    unfolding prune_inner_def using l by (induction d) auto
  then show ?case using Cons.IH [OF r] d by (simp add: prune_table_def row)
qed

section \<open>The store under table\_add\<close>

lemma wf_heapD:
  assumes "wf_heap h"
  shows "distinct (map fst (outer_dicts h a))" "distinct (map fst (inner_dicts h a))"
    "(k, ia) \<in> set (outer_dicts h a) \<Longrightarrow> ia < next_addr h"
    "(k, la) \<in> set (inner_dicts h a) \<Longrightarrow> la < next_addr h"
  using assms unfolding wf_heap_def list_all_iff by force+

lemma wf_heapI:
  assumes "\<And>a. distinct (map fst (outer_dicts h a))" "\<And>a. distinct (map fst (inner_dicts h a))"
    "\<And>a k ia. (k, ia) \<in> set (outer_dicts h a) \<Longrightarrow> ia < next_addr h"
    "\<And>a k la. (k, la) \<in> set (inner_dicts h a) \<Longrightarrow> la < next_addr h"
  shows "wf_heap h"
  using assms unfolding wf_heap_def list_all_iff by force

lemma wf_empty_heap: "wf_heap empty_heap"
  by (simp add: wf_heap_def empty_heap_def)

lemma wf_new_outer_dict:
  assumes w: "wf_heap h"
  shows "wf_heap (fst (new_outer_dict h))"
  unfolding new_outer_dict_def
  by (rule wf_heapI)
     (auto simp: less_Suc_eq wf_heapD(1,2) [OF w] dest: wf_heapD(3,4) [OF w] split: if_splits)

lemma wf_outer_setdefault: "wf_heap h \<Longrightarrow> wf_heap (fst (outer_setdefault h a k))"
proof (cases "map_of (outer_dicts h a) k")
  case (Some ia)
  assume "wf_heap h" then show ?thesis using Some by (simp add: outer_setdefault_def)
next
  case None
  assume w: "wf_heap h"
  from None have k: "k \<notin> fst ` set (outer_dicts h a)" by (simp add: map_of_eq_None_iff)
  show ?thesis
    unfolding outer_setdefault_def None option.case fst_conv
    by (rule wf_heapI)
       (use k in \<open>auto simp: less_Suc_eq wf_heapD(1,2) [OF w] dest: wf_heapD(3,4) [OF w]
                         split: if_splits\<close>)
qed

lemma wf_inner_setdefault: "wf_heap h \<Longrightarrow> wf_heap (fst (inner_setdefault h ia k))"
proof (cases "map_of (inner_dicts h ia) k")
  case (Some la)
  assume "wf_heap h" then show ?thesis using Some by (simp add: inner_setdefault_def)
next
  case None
  assume w: "wf_heap h"
  from None have k: "k \<notin> fst ` set (inner_dicts h ia)" by (simp add: map_of_eq_None_iff)
  show ?thesis
    unfolding inner_setdefault_def None option.case fst_conv
    by (rule wf_heapI)
       (use k in \<open>auto simp: less_Suc_eq wf_heapD(1,2) [OF w] dest: wf_heapD(3,4) [OF w]
                         split: if_splits\<close>)
qed

lemma wf_list_append: "wf_heap h \<Longrightarrow> wf_heap (list_append h la v)"
  by (simp add: wf_heap_def list_append_def)

lemma wf_table_add: "wf_heap h \<Longrightarrow> wf_heap (table_add h a k1 k2 v)"
  unfolding table_add_def Let_def
  by (simp add: case_prod_beta wf_list_append wf_inner_setdefault wf_outer_setdefault)

lemma next_outer_setdefault: "next_addr h \<le> next_addr (fst (outer_setdefault h a k))"
  by (simp add: outer_setdefault_def split: option.splits)

lemma next_inner_setdefault: "next_addr h \<le> next_addr (fst (inner_setdefault h a k))"
  by (simp add: inner_setdefault_def split: option.splits)

lemma next_table_add: "next_addr h \<le> next_addr (table_add h a k1 k2 v)"
proof -
  have "next_addr (table_add h a k1 k2 v) =
        next_addr (fst (inner_setdefault (fst (outer_setdefault h a k1))
                          (snd (outer_setdefault h a k1)) k2))"
    by (simp add: table_add_def Let_def case_prod_beta list_append_def)
  then show ?thesis
    using next_outer_setdefault [of h a k1]
      next_inner_setdefault [of "fst (outer_setdefault h a k1)" "snd (outer_setdefault h a k1)" k2]
    by simp
qed

text \<open>The three ways \<open>table_add\<close> can go, written out.\<close>

lemma table_add_new_outer:
  assumes "map_of (outer_dicts h a) k1 = None"
  shows "table_add h a k1 k2 v =
           h\<lparr>outer_dicts := (outer_dicts h)(a := outer_dicts h a @ [(k1, next_addr h)]),
             inner_dicts := (inner_dicts h)(next_addr h := [(k2, Suc (next_addr h))]),
             lists := (lists h)(Suc (next_addr h) := [v]),
             next_addr := Suc (Suc (next_addr h))\<rparr>"
  using assms
  by (simp add: table_add_def outer_setdefault_def inner_setdefault_def list_append_def)

lemma table_add_new_inner:
  assumes "map_of (outer_dicts h a) k1 = Some ia" "map_of (inner_dicts h ia) k2 = None"
  shows "table_add h a k1 k2 v =
           h\<lparr>inner_dicts := (inner_dicts h)(ia := inner_dicts h ia @ [(k2, next_addr h)]),
             lists := (lists h)(next_addr h := [v]),
             next_addr := Suc (next_addr h)\<rparr>"
  using assms
  by (simp add: table_add_def outer_setdefault_def inner_setdefault_def list_append_def)

lemma table_add_existing:
  assumes "map_of (outer_dicts h a) k1 = Some ia" "map_of (inner_dicts h ia) k2 = Some la"
  shows "table_add h a k1 k2 v = h\<lparr>lists := (lists h)(la := lists h la @ [v])\<rparr>"
  using assms
  by (simp add: table_add_def outer_setdefault_def inner_setdefault_def list_append_def)

text \<open>What \<open>table_add\<close> leaves alone.\<close>

lemma table_add_outer_other:
  "x \<noteq> a \<Longrightarrow> outer_dicts (table_add h a k1 k2 v) x = outer_dicts h x"
  by (cases "map_of (outer_dicts h a) k1"; cases "map_of (inner_dicts h (the (map_of (outer_dicts h a) k1))) k2")
     (auto simp: table_add_new_outer table_add_new_inner table_add_existing)

lemma table_add_inner_other:
  "x \<notin> set (table_inner_addrs h a) \<Longrightarrow> x < next_addr h \<Longrightarrow>
   inner_dicts (table_add h a k1 k2 v) x = inner_dicts h x"
proof (cases "map_of (outer_dicts h a) k1")
  case None
  assume "x < next_addr h"
  then show ?thesis by (simp add: table_add_new_outer [OF None])
next
  case (Some ia)
  assume x: "x \<notin> set (table_inner_addrs h a)"
  from Some have "ia \<in> set (table_inner_addrs h a)"
    by (force simp: table_inner_addrs_def dest: map_of_SomeD)
  with x have ne: "x \<noteq> ia" by blast
  show ?thesis
    by (cases "map_of (inner_dicts h ia) k2")
       (use ne in \<open>simp_all add: table_add_new_inner [OF Some] table_add_existing [OF Some]\<close>)
qed

lemma list_addr_of_table:
  "map_of (outer_dicts h a) k1 = Some ia \<Longrightarrow> map_of (inner_dicts h ia) k2 = Some la \<Longrightarrow>
   la \<in> set (table_list_addrs h a)"
  by (force simp: table_list_addrs_def table_inner_addrs_def dest: map_of_SomeD)

lemma table_add_lists_other:
  "x \<notin> set (table_list_addrs h a) \<Longrightarrow> x < next_addr h \<Longrightarrow>
   lists (table_add h a k1 k2 v) x = lists h x"
proof (cases "map_of (outer_dicts h a) k1")
  case None
  assume "x < next_addr h"
  then show ?thesis by (simp add: table_add_new_outer [OF None])
next
  case (Some ia)
  assume x: "x \<notin> set (table_list_addrs h a)" and b: "x < next_addr h"
  show ?thesis
  proof (cases "map_of (inner_dicts h ia) k2")
    case None
    then show ?thesis using b by (simp add: table_add_new_inner [OF Some])
  next
    case (Some la)
    from list_addr_of_table [OF \<open>map_of (outer_dicts h a) k1 = Some ia\<close> Some] x
    have "x \<noteq> la" by blast
    then show ?thesis
      by (simp add: table_add_existing [OF \<open>map_of (outer_dicts h a) k1 = Some ia\<close> Some])
  qed
qed

text \<open>A table reads the same when the objects it is made of are the same.\<close>

lemma read_inner_cong:
  "inner_dicts h' ia = inner_dicts h ia \<Longrightarrow>
   (\<And>la. la \<in> snd ` set (inner_dicts h ia) \<Longrightarrow> lists h' la = lists h la) \<Longrightarrow>
   read_inner h' ia = read_inner h ia"
  by (fastforce simp: read_inner_def image_iff)

lemma table_cong:
  assumes o: "outer_dicts h' a = outer_dicts h a"
    and i: "\<And>ia. ia \<in> set (table_inner_addrs h a) \<Longrightarrow> inner_dicts h' ia = inner_dicts h ia"
    and l: "\<And>la. la \<in> set (table_list_addrs h a) \<Longrightarrow> lists h' la = lists h la"
  shows "read_table h' a = read_table h a"
    and "table_inner_addrs h' a = table_inner_addrs h a"
    and "table_list_addrs h' a = table_list_addrs h a"
proof -
  show ia: "table_inner_addrs h' a = table_inner_addrs h a"
    by (simp add: table_inner_addrs_def o)
  show "table_list_addrs h' a = table_list_addrs h a"
    unfolding table_list_addrs_def ia using i by (auto intro!: arg_cong [where f = concat])
  have "read_inner h' ia = read_inner h ia" if "ia \<in> set (table_inner_addrs h a)" for ia
  proof (rule read_inner_cong)
    show "inner_dicts h' ia = inner_dicts h ia" using i that .
    fix la assume "la \<in> snd ` set (inner_dicts h ia)"
    with that have "la \<in> set (table_list_addrs h a)"
      by (auto simp: table_list_addrs_def)
    then show "lists h' la = lists h la" by (rule l)
  qed
  then show "read_table h' a = read_table h a"
    unfolding read_table_def o by (fastforce simp: table_inner_addrs_def image_iff)
qed

section \<open>Adding to a table that shares nothing\<close>

lemma map_upd_dict_set:
  "map_of xs k1 = Some ia \<Longrightarrow> distinct (map snd xs) \<Longrightarrow>
   map (\<lambda>(k, x). (k, if x = ia then r else f x)) xs = dict_set (map (\<lambda>(k, x). (k, f x)) xs) k1 r"
proof (induction xs)
  case Nil then show ?case by simp
next
  case (Cons p xs)
  obtain k x where p: "p = (k, x)" by (cases p)
  show ?case
  proof (cases "k = k1")
    case True
    with Cons.prems p have x: "x = ia" by simp
    from Cons.prems p x have "ia \<notin> snd ` set xs" by simp
    then have "map (\<lambda>(k, x). (k, if x = ia then r else f x)) xs = map (\<lambda>(k, x). (k, f x)) xs"
      by (induction xs) auto
    then show ?thesis using True p x by simp
  next
    case False
    with Cons.prems p have m: "map_of xs k1 = Some ia" by simp
    then have "ia \<in> snd ` set xs" by (force dest: map_of_SomeD)
    with Cons.prems p have "x \<noteq> ia" by auto
    then show ?thesis using False p Cons.IH [OF m] Cons.prems by simp
  qed
qed

lemma distinct_concat_map_parts:
  assumes "distinct (concat (map g xs))"
  shows "x \<in> set xs \<Longrightarrow> distinct (g x)"
    and "distinct xs \<Longrightarrow> x \<in> set xs \<Longrightarrow> y \<in> set xs \<Longrightarrow> x \<noteq> y \<Longrightarrow> set (g x) \<inter> set (g y) = {}"
  using assms by (induction xs) auto

lemma owns_fromD:
  assumes "owns_from n0 h c"
  shows "n0 \<le> c" "c < next_addr h"
    "ia \<in> set (table_inner_addrs h c) \<Longrightarrow> n0 \<le> ia"
    "la \<in> set (table_list_addrs h c) \<Longrightarrow> n0 \<le> la"
    "distinct (table_inner_addrs h c)" "distinct (table_list_addrs h c)"
  using assms unfolding owns_from_def list_all_iff by auto

lemma inner_addr_lt:
  "wf_heap h \<Longrightarrow> ia \<in> set (table_inner_addrs h a) \<Longrightarrow> ia < next_addr h"
  by (auto simp: table_inner_addrs_def dest: wf_heapD(3))

lemma list_addr_lt:
  "wf_heap h \<Longrightarrow> la \<in> set (table_list_addrs h a) \<Longrightarrow> la < next_addr h"
  by (auto simp: table_list_addrs_def dest: wf_heapD(4))

lemma inner_addr_of_table:
  "map_of (outer_dicts h a) k1 = Some ia \<Longrightarrow> ia \<in> set (table_inner_addrs h a)"
  by (force simp: table_inner_addrs_def dest: map_of_SomeD)

lemma map_of_read_inner:
  "map_of (read_inner h ia) k2 = map_option (lists h) (map_of (inner_dicts h ia) k2)"
  unfolding read_inner_def by (induction "inner_dicts h ia" arbitrary: ia) (auto simp: map_of_map)

lemma same_below_table_add_owned:
  assumes w: "wf_heap h" and o: "owns_from n0 h c"
  shows "same_below n0 h (table_add h c k1 k2 v)"
  unfolding same_below_def
proof (intro conjI allI impI)
  show "next_addr h \<le> next_addr (table_add h c k1 k2 v)" by (rule next_table_add)
next
  fix x assume x: "x < n0"
  from x owns_fromD(1,2) [OF o] have xc: "x \<noteq> c" and xn: "x < next_addr h" by simp_all
  from x owns_fromD(3) [OF o] have xi: "x \<notin> set (table_inner_addrs h c)" by force
  from x owns_fromD(4) [OF o] have xl: "x \<notin> set (table_list_addrs h c)" by force
  show "outer_dicts (table_add h c k1 k2 v) x = outer_dicts h x"
    by (rule table_add_outer_other [OF xc])
  show "inner_dicts (table_add h c k1 k2 v) x = inner_dicts h x"
    by (rule table_add_inner_other [OF xi xn])
  show "lists (table_add h c k1 k2 v) x = lists h x"
    by (rule table_add_lists_other [OF xl xn])
qed

lemma table_add_owned_new_outer:
  assumes w: "wf_heap h" and o: "owns_from n0 h c"
    and m: "map_of (outer_dicts h c) k1 = None"
  shows "read_table (table_add h c k1 k2 v) c = add_val (read_table h c) k1 k2 v"
    and "owns_from n0 (table_add h c k1 k2 v) c"
proof -
  let ?n = "next_addr h"
  let ?h' = "table_add h c k1 k2 v"
  note e = table_add_new_outer [OF m, of k2 v]
  have old_i: "ia < ?n" if "ia \<in> set (table_inner_addrs h c)" for ia
    using inner_addr_lt [OF w that] .
  have old_l: "la < ?n" if "la \<in> set (table_list_addrs h c)" for la
    using list_addr_lt [OF w that] .
  have ri: "read_inner ?h' ia = read_inner h ia" if "ia \<in> set (table_inner_addrs h c)" for ia
  proof (rule read_inner_cong)
    show "inner_dicts ?h' ia = inner_dicts h ia" using old_i [OF that] by (simp add: e)
    fix la assume "la \<in> snd ` set (inner_dicts h ia)"
    with that have "la \<in> set (table_list_addrs h c)" by (auto simp: table_list_addrs_def)
    from old_l [OF this] show "lists ?h' la = lists h la" by (simp add: e)
  qed
  have rn: "read_inner ?h' ?n = [(k2, [v])]" unfolding e read_inner_def by simp
  have "read_table ?h' c = map (\<lambda>(k, ia). (k, read_inner ?h' ia)) (outer_dicts h c) @ [(k1, [(k2, [v])])]"
    by (simp add: read_table_def e rn [unfolded e])
  also have "map (\<lambda>(k, ia). (k, read_inner ?h' ia)) (outer_dicts h c) = read_table h c"
    unfolding read_table_def using ri by (fastforce simp: table_inner_addrs_def image_iff)
  finally show "read_table ?h' c = add_val (read_table h c) k1 k2 v"
    by (simp add: add_val_def map_of_read_table m)
  have ia': "table_inner_addrs ?h' c = table_inner_addrs h c @ [?n]"
    by (simp add: table_inner_addrs_def e)
  have mm: "map (\<lambda>ia. map snd (inner_dicts ?h' ia)) (table_inner_addrs h c) =
        map (\<lambda>ia. map snd (inner_dicts h ia)) (table_inner_addrs h c)"
  proof (rule map_cong [OF refl])
    fix ia assume "ia \<in> set (table_inner_addrs h c)"
    from old_i [OF this] show "map snd (inner_dicts ?h' ia) = map snd (inner_dicts h ia)"
      by (simp add: e)
  qed
  have last: "map snd (inner_dicts ?h' ?n) = [Suc ?n]" by (simp add: e)
  have la': "table_list_addrs ?h' c = table_list_addrs h c @ [Suc ?n]"
    unfolding table_list_addrs_def ia' by (simp add: mm last)
  have n0: "n0 \<le> ?n" using owns_fromD(1,2) [OF o] by simp
  have f1: "?n \<notin> set (table_inner_addrs h c)" using old_i by blast
  have f2: "Suc ?n \<notin> set (table_list_addrs h c)" using old_l by fastforce
  show "owns_from n0 ?h' c"
    unfolding owns_from_def ia' la' list_all_iff
    using owns_fromD [OF o] n0 f1 f2 by (auto simp: e)
qed


lemma read_table_upd_row:
  assumes oo: "outer_dicts h' c = outer_dicts h c"
    and m1: "map_of (outer_dicts h c) k1 = Some ia"
    and d: "distinct (table_inner_addrs h c)"
    and other: "\<And>x. x \<in> set (table_inner_addrs h c) \<Longrightarrow> x \<noteq> ia \<Longrightarrow> read_inner h' x = read_inner h x"
    and row: "read_inner h' ia = R"
  shows "read_table h' c = dict_set (read_table h c) k1 R"
proof -
  have "map (\<lambda>(k, x). (k, read_inner h' x)) (outer_dicts h c) =
        map (\<lambda>(k, x). (k, if x = ia then R else read_inner h x)) (outer_dicts h c)"
  proof (rule map_cong [OF refl])
    fix p assume p: "p \<in> set (outer_dicts h c)"
    obtain k x where kx: "p = (k, x)" by (cases p)
    with p have "x \<in> set (table_inner_addrs h c)" by (force simp: table_inner_addrs_def)
    then show "(case p of (k, x) \<Rightarrow> (k, read_inner h' x)) =
               (case p of (k, x) \<Rightarrow> (k, if x = ia then R else read_inner h x))"
      using other row by (simp add: kx)
  qed
  also have "\<dots> = dict_set (map (\<lambda>(k, x). (k, read_inner h x)) (outer_dicts h c)) k1 R"
    by (rule map_upd_dict_set [OF m1]) (use d in \<open>simp add: table_inner_addrs_def\<close>)
  finally show ?thesis by (simp add: read_table_def oo)
qed

lemma concat_upd_set:
  "ia \<in> set xs \<Longrightarrow>
   set (concat (map (\<lambda>x. if x = ia then g x @ [n] else g x) xs)) = insert n (set (concat (map g xs)))"
  by (induction xs) auto

lemma concat_upd_distinct:
  "distinct xs \<Longrightarrow> distinct (concat (map g xs)) \<Longrightarrow> n \<notin> set (concat (map g xs)) \<Longrightarrow>
   distinct (concat (map (\<lambda>x. if x = ia then g x @ [n] else g x) xs))"
proof (induction xs)
  case Nil show ?case by simp
next
  case (Cons y xs)
  show ?case
  proof (cases "y = ia")
    case True
    with Cons.prems have "ia \<notin> set xs" by simp
    then have eq: "map (\<lambda>x. if x = ia then g x @ [n] else g x) xs = map g xs" by (induction xs) auto
    have "concat (map (\<lambda>x. if x = ia then g x @ [n] else g x) (y # xs)) =
            (g ia @ [n]) @ concat (map g xs)"
      using True by (simp add: eq)
    then show ?thesis using Cons.prems True by auto
  next
    case False
    have s: "set (concat (map (\<lambda>x. if x = ia then g x @ [n] else g x) xs))
               \<subseteq> insert n (set (concat (map g xs)))"
      by (induction xs) auto
    from Cons.prems have "distinct (concat (map (\<lambda>x. if x = ia then g x @ [n] else g x) xs))"
      by (intro Cons.IH) auto
    then show ?thesis using False Cons.prems s by auto
  qed
qed

lemma table_add_owned_new_inner:
  assumes w: "wf_heap h" and o: "owns_from n0 h c"
    and m1: "map_of (outer_dicts h c) k1 = Some ia"
    and m2: "map_of (inner_dicts h ia) k2 = None"
  shows "read_table (table_add h c k1 k2 v) c = add_val (read_table h c) k1 k2 v"
    and "owns_from n0 (table_add h c k1 k2 v) c"
proof -
  let ?n = "next_addr h"
  let ?h' = "table_add h c k1 k2 v"
  note e = table_add_new_inner [OF m1 m2, of v]
  have iain: "ia \<in> set (table_inner_addrs h c)" by (rule inner_addr_of_table [OF m1])
  have old_l: "la < ?n" if "la \<in> set (table_list_addrs h c)" for la
    using list_addr_lt [OF w that] .
  have in_l: "la \<in> set (table_list_addrs h c)"
    if "x \<in> set (table_inner_addrs h c)" "la \<in> snd ` set (inner_dicts h x)" for x la
    using that by (auto simp: table_list_addrs_def)
  have oo: "outer_dicts ?h' c = outer_dicts h c" by (simp add: e)
  have other: "read_inner ?h' x = read_inner h x"
    if "x \<in> set (table_inner_addrs h c)" "x \<noteq> ia" for x
  proof (rule read_inner_cong)
    show "inner_dicts ?h' x = inner_dicts h x" using that by (simp add: e)
    fix la assume "la \<in> snd ` set (inner_dicts h x)"
    from old_l [OF in_l [OF that(1) this]] show "lists ?h' la = lists h la" by (simp add: e)
  qed
  have "map (\<lambda>(k, la). (k, lists ?h' la)) (inner_dicts h ia) =
        map (\<lambda>(k, la). (k, lists h la)) (inner_dicts h ia)"
  proof (rule map_cong [OF refl])
    fix p assume p: "p \<in> set (inner_dicts h ia)"
    then have "snd p \<in> snd ` set (inner_dicts h ia)" by (rule imageI)
    from old_l [OF in_l [OF iain this]] have "lists ?h' (snd p) = lists h (snd p)" by (simp add: e)
    then show "(case p of (k, la) \<Rightarrow> (k, lists ?h' la)) = (case p of (k, la) \<Rightarrow> (k, lists h la))"
      by (simp add: case_prod_beta)
  qed
  moreover have "inner_dicts ?h' ia = inner_dicts h ia @ [(k2, ?n)]" by (simp add: e)
  moreover have "lists ?h' ?n = [v]" by (simp add: e)
  ultimately have row: "read_inner ?h' ia = read_inner h ia @ [(k2, [v])]"
    by (simp add: read_inner_def)
  have "read_table ?h' c = dict_set (read_table h c) k1 (read_inner h ia @ [(k2, [v])])"
    by (rule read_table_upd_row [OF oo m1 owns_fromD(5) [OF o] other row])
  then show "read_table ?h' c = add_val (read_table h c) k1 k2 v"
    by (simp add: add_val_def inner_add_def map_of_read_table map_of_read_inner m1 m2)
  have ia': "table_inner_addrs ?h' c = table_inner_addrs h c"
    by (simp add: table_inner_addrs_def e)
  have la': "table_list_addrs ?h' c =
               concat (map (\<lambda>x. if x = ia then map snd (inner_dicts h x) @ [?n]
                                  else map snd (inner_dicts h x)) (table_inner_addrs h c))"
    unfolding table_list_addrs_def ia'
    by (rule arg_cong [where f = concat], rule map_cong [OF refl]) (simp add: e)
  have fresh: "?n \<notin> set (concat (map (\<lambda>x. map snd (inner_dicts h x)) (table_inner_addrs h c)))"
    using old_l unfolding table_list_addrs_def by blast
  have dl: "distinct (table_list_addrs ?h' c)"
    unfolding la'
    by (rule concat_upd_distinct [OF owns_fromD(5) [OF o] _ fresh])
       (use owns_fromD(6) [OF o] in \<open>simp add: table_list_addrs_def\<close>)
  have sl: "set (table_list_addrs ?h' c) = insert ?n (set (table_list_addrs h c))"
    unfolding la' by (simp only: concat_upd_set [OF iain] table_list_addrs_def)
  have n0: "n0 \<le> ?n" using owns_fromD(1,2) [OF o] by simp
  show "owns_from n0 ?h' c"
    unfolding owns_from_def list_all_iff ia' sl
    using owns_fromD [OF o] n0 dl by (auto simp: e)
qed

lemma table_add_owned_existing:
  assumes w: "wf_heap h" and o: "owns_from n0 h c"
    and m1: "map_of (outer_dicts h c) k1 = Some ia"
    and m2: "map_of (inner_dicts h ia) k2 = Some la"
  shows "read_table (table_add h c k1 k2 v) c = add_val (read_table h c) k1 k2 v"
    and "owns_from n0 (table_add h c k1 k2 v) c"
proof -
  let ?h' = "table_add h c k1 k2 v"
  note e = table_add_existing [OF m1 m2, of v]
  have iain: "ia \<in> set (table_inner_addrs h c)" by (rule inner_addr_of_table [OF m1])
  have lain: "la \<in> snd ` set (inner_dicts h ia)" using m2 by (force dest: map_of_SomeD)
  have dc: "distinct (concat (map (\<lambda>x. map snd (inner_dicts h x)) (table_inner_addrs h c)))"
    using owns_fromD(6) [OF o] by (simp add: table_list_addrs_def)
  have oo: "outer_dicts ?h' c = outer_dicts h c" by (simp add: e)
  have other: "read_inner ?h' x = read_inner h x"
    if "x \<in> set (table_inner_addrs h c)" "x \<noteq> ia" for x
  proof (rule read_inner_cong)
    show "inner_dicts ?h' x = inner_dicts h x" by (simp add: e)
    fix y assume y: "y \<in> snd ` set (inner_dicts h x)"
    from distinct_concat_map_parts(2) [OF dc owns_fromD(5) [OF o] that(1) iain that(2)]
    have "set (map snd (inner_dicts h x)) \<inter> set (map snd (inner_dicts h ia)) = {}" .
    with y lain have "y \<noteq> la" by auto
    then show "lists ?h' y = lists h y" by (simp add: e)
  qed
  have di: "distinct (map snd (inner_dicts h ia))"
    by (rule distinct_concat_map_parts(1) [OF dc iain])
  have "read_inner ?h' ia =
          map (\<lambda>(k, y). (k, if y = la then lists h la @ [v] else lists h y)) (inner_dicts h ia)"
    unfolding read_inner_def by (rule map_cong) (auto simp: e)
  also have "\<dots> = dict_set (read_inner h ia) k2 (lists h la @ [v])"
    unfolding read_inner_def by (rule map_upd_dict_set [OF m2 di])
  finally have row: "read_inner ?h' ia = dict_set (read_inner h ia) k2 (lists h la @ [v])" .
  have "read_table ?h' c = dict_set (read_table h c) k1 (dict_set (read_inner h ia) k2 (lists h la @ [v]))"
    by (rule read_table_upd_row [OF oo m1 owns_fromD(5) [OF o] other row])
  then show "read_table ?h' c = add_val (read_table h c) k1 k2 v"
    by (simp add: add_val_def inner_add_def map_of_read_table map_of_read_inner m1 m2)
  show "owns_from n0 ?h' c"
    using o by (simp add: owns_from_def table_inner_addrs_def table_list_addrs_def e)
qed

lemma table_add_owned:
  assumes w: "wf_heap h" and o: "owns_from n0 h c"
  shows "read_table (table_add h c k1 k2 v) c = add_val (read_table h c) k1 k2 v"
    and "owns_from n0 (table_add h c k1 k2 v) c"
proof -
  have "read_table (table_add h c k1 k2 v) c = add_val (read_table h c) k1 k2 v
        \<and> owns_from n0 (table_add h c k1 k2 v) c"
  proof (cases "map_of (outer_dicts h c) k1")
    case None
    from table_add_owned_new_outer [OF w o None] show ?thesis by blast
  next
    case (Some ia)
    show ?thesis
    proof (cases "map_of (inner_dicts h ia) k2")
      case None
      from table_add_owned_new_inner [OF w o Some None] show ?thesis by blast
    next
      case (Some la)
      from table_add_owned_existing [OF w o \<open>map_of (outer_dicts h c) k1 = Some ia\<close> Some]
      show ?thesis by blast
    qed
  qed
  then show "read_table (table_add h c k1 k2 v) c = add_val (read_table h c) k1 k2 v"
    and "owns_from n0 (table_add h c k1 k2 v) c" by blast+
qed

section \<open>deepish\_clone\_dict\<close>

lemma same_below_refl: "same_below n h h"
  by (simp add: same_below_def)

lemma same_below_trans:
  "same_below n h h1 \<Longrightarrow> same_below n h1 h2 \<Longrightarrow> same_below n h h2"
  by (auto simp: same_below_def)

lemma same_below_mono: "same_below n h h' \<Longrightarrow> m \<le> n \<Longrightarrow> same_below m h h'"
  by (auto simp: same_below_def)

lemma clone_values:
  assumes "wf_heap hi" "owns_from n0 hi c" "same_below n0 h hi"
  shows "wf_heap (fold (\<lambda>v h3. table_add h3 c k1 k2 v) vs hi)
       \<and> owns_from n0 (fold (\<lambda>v h3. table_add h3 c k1 k2 v) vs hi) c
       \<and> same_below n0 h (fold (\<lambda>v h3. table_add h3 c k1 k2 v) vs hi)
       \<and> read_table (fold (\<lambda>v h3. table_add h3 c k1 k2 v) vs hi) c =
           fold (\<lambda>v t. add_val t k1 k2 v) vs (read_table hi c)"
  using assms
proof (induction vs arbitrary: hi)
  case Nil then show ?case by simp
next
  case (Cons v vs)
  let ?h1 = "table_add hi c k1 k2 v"
  have 1: "wf_heap ?h1" by (rule wf_table_add [OF Cons.prems(1)])
  have 2: "owns_from n0 ?h1 c" by (rule table_add_owned(2) [OF Cons.prems(1,2)])
  have 3: "same_below n0 h ?h1"
    by (rule same_below_trans [OF Cons.prems(3) same_below_table_add_owned [OF Cons.prems(1,2)]])
  have 4: "read_table ?h1 c = add_val (read_table hi c) k1 k2 v"
    by (rule table_add_owned(1) [OF Cons.prems(1,2)])
  from Cons.IH [OF 1 2 3] show ?case by (simp add: 4)
qed

lemma clone_row:
  assumes "wf_heap hi" "owns_from n0 hi c" "same_below n0 h hi"
    and "\<forall>p \<in> set items. snd p < n0"
  shows "wf_heap (fold (\<lambda>(ifmt, l) h2. fold (\<lambda>v h3. table_add h3 c k1 ifmt v) (lists h2 l) h2) items hi)
       \<and> owns_from n0 (fold (\<lambda>(ifmt, l) h2. fold (\<lambda>v h3. table_add h3 c k1 ifmt v) (lists h2 l) h2) items hi) c
       \<and> same_below n0 h (fold (\<lambda>(ifmt, l) h2. fold (\<lambda>v h3. table_add h3 c k1 ifmt v) (lists h2 l) h2) items hi)
       \<and> read_table (fold (\<lambda>(ifmt, l) h2. fold (\<lambda>v h3. table_add h3 c k1 ifmt v) (lists h2 l) h2) items hi) c =
           copy_row k1 (map (\<lambda>(k2, la). (k2, lists h la)) items) (read_table hi c)"
  using assms
proof (induction items arbitrary: hi)
  case Nil then show ?case by (simp add: copy_row_def)
next
  case (Cons item items)
  obtain k2 la where item: "item = (k2, la)" by (cases item)
  from Cons.prems(4) item have la: "la < n0" by simp
  with Cons.prems(3) have l: "lists hi la = lists h la" by (simp add: same_below_def)
  let ?h1 = "fold (\<lambda>v h3. table_add h3 c k1 k2 v) (lists h la) hi"
  from clone_values [OF Cons.prems(1,2,3), where ?k1.0 = k1 and ?k2.0 = k2 and vs = "lists h la"]
  have 1: "wf_heap ?h1" and 2: "owns_from n0 ?h1 c" and 3: "same_below n0 h ?h1"
    and 4: "read_table ?h1 c = fold (\<lambda>v t. add_val t k1 k2 v) (lists h la) (read_table hi c)"
    by blast+
  have rest: "\<forall>p \<in> set items. snd p < n0" using Cons.prems(4) by simp
  from Cons.IH [OF 1 2 3 rest] show ?case by (simp add: item l 4 copy_row_def)
qed

lemma clone_rows:
  assumes "wf_heap hi" "owns_from n0 hi c" "same_below n0 h hi"
    and "\<forall>r \<in> set rows. snd r < n0 \<and> (\<forall>p \<in> set (inner_dicts h (snd r)). snd p < n0)"
  shows "wf_heap (fold (\<lambda>(enc, d) h1.
                    fold (\<lambda>(ifmt, l) h2. fold (\<lambda>v h3. table_add h3 c enc ifmt v) (lists h2 l) h2)
                      (inner_dicts h1 d) h1) rows hi)
       \<and> owns_from n0 (fold (\<lambda>(enc, d) h1.
                    fold (\<lambda>(ifmt, l) h2. fold (\<lambda>v h3. table_add h3 c enc ifmt v) (lists h2 l) h2)
                      (inner_dicts h1 d) h1) rows hi) c
       \<and> same_below n0 h (fold (\<lambda>(enc, d) h1.
                    fold (\<lambda>(ifmt, l) h2. fold (\<lambda>v h3. table_add h3 c enc ifmt v) (lists h2 l) h2)
                      (inner_dicts h1 d) h1) rows hi)
       \<and> read_table (fold (\<lambda>(enc, d) h1.
                    fold (\<lambda>(ifmt, l) h2. fold (\<lambda>v h3. table_add h3 c enc ifmt v) (lists h2 l) h2)
                      (inner_dicts h1 d) h1) rows hi) c =
           copy_into (map (\<lambda>(k1, ia). (k1, read_inner h ia)) rows) (read_table hi c)"
  using assms
proof (induction rows arbitrary: hi)
  case Nil then show ?case by (simp add: copy_into_def)
next
  case (Cons row rows)
  obtain k1 ia where row: "row = (k1, ia)" by (cases row)
  from Cons.prems(4) row have ia: "ia < n0" by simp
  with Cons.prems(3) have i: "inner_dicts hi ia = inner_dicts h ia" by (simp add: same_below_def)
  from Cons.prems(4) row have items: "\<forall>p \<in> set (inner_dicts h ia). snd p < n0" by simp
  let ?h1 = "fold (\<lambda>(ifmt, l) h2. fold (\<lambda>v h3. table_add h3 c k1 ifmt v) (lists h2 l) h2)
               (inner_dicts h ia) hi"
  from clone_row [OF Cons.prems(1,2,3) items, where ?k1.0 = k1]
  have 1: "wf_heap ?h1" and 2: "owns_from n0 ?h1 c" and 3: "same_below n0 h ?h1"
    and 4: "read_table ?h1 c = copy_row k1 (read_inner h ia) (read_table hi c)"
    unfolding read_inner_def by blast+
  have r4: "\<forall>r \<in> set rows. snd r < n0 \<and> (\<forall>p \<in> set (inner_dicts h (snd r)). snd p < n0)"
    using Cons.prems(4) by simp
  from Cons.IH [OF 1 2 3 r4] show ?case by (simp add: row i 4 copy_into_def)
qed

lemma deepish_clone_dict_copy:
  assumes w: "wf_heap h" and a: "a < next_addr h"
  shows "wf_heap (fst (deepish_clone_dict h a))"
    and "snd (deepish_clone_dict h a) = next_addr h"
    and "owns_from (next_addr h) (fst (deepish_clone_dict h a)) (snd (deepish_clone_dict h a))"
    and "same_below (next_addr h) h (fst (deepish_clone_dict h a))"
    and "read_table (fst (deepish_clone_dict h a)) (snd (deepish_clone_dict h a)) =
           copy_into (read_table h a) []"
proof -
  let ?n = "next_addr h"
  let ?h0 = "fst (new_outer_dict h)"
  have c: "snd (new_outer_dict h) = ?n" by (simp add: new_outer_dict_def)
  have w0: "wf_heap ?h0" by (rule wf_new_outer_dict [OF w])
  have o0: "owns_from ?n ?h0 ?n"
    by (simp add: owns_from_def new_outer_dict_def table_inner_addrs_def table_list_addrs_def)
  have s0: "same_below ?n h ?h0" by (simp add: same_below_def new_outer_dict_def)
  have rows: "outer_dicts ?h0 a = outer_dicts h a" using a by (simp add: new_outer_dict_def)
  have r0: "read_table ?h0 ?n = []" by (simp add: read_table_def new_outer_dict_def)
  have p4: "\<forall>r \<in> set (outer_dicts h a). snd r < ?n \<and> (\<forall>p \<in> set (inner_dicts h (snd r)). snd p < ?n)"
    using wf_heapD(3,4) [OF w] by (metis prod.collapse)
  have d: "deepish_clone_dict h a =
             (fold (\<lambda>(enc, d) h1.
                    fold (\<lambda>(ifmt, l) h2. fold (\<lambda>v h3. table_add h3 ?n enc ifmt v) (lists h2 l) h2)
                      (inner_dicts h1 d) h1) (outer_dicts h a) ?h0, ?n)"
    by (simp add: deepish_clone_dict_def case_prod_beta c rows Let_def)
  note r = clone_rows [where rows = "outer_dicts h a", OF w0 o0 s0 p4, simplified r0]
  show "wf_heap (fst (deepish_clone_dict h a))" unfolding d fst_conv using r by blast
  show "snd (deepish_clone_dict h a) = next_addr h" unfolding d by simp
  show "owns_from (next_addr h) (fst (deepish_clone_dict h a)) (snd (deepish_clone_dict h a))"
    unfolding d fst_conv snd_conv using r by blast
  show "same_below (next_addr h) h (fst (deepish_clone_dict h a))"
    unfolding d fst_conv using r by blast
  show "read_table (fst (deepish_clone_dict h a)) (snd (deepish_clone_dict h a)) =
           copy_into (read_table h a) []"
    unfolding d fst_conv snd_conv using r by (simp add: read_table_def)
qed

section \<open>Tables that stay as they are\<close>

lemma lives_below_wf: "wf_heap h \<Longrightarrow> a < next_addr h \<Longrightarrow> lives_below (next_addr h) h a"
  unfolding lives_below_def list_all_iff
  by (auto dest: inner_addr_lt list_addr_lt)

lemma lives_belowD:
  assumes "lives_below n h a"
  shows "a < n" "ia \<in> set (table_inner_addrs h a) \<Longrightarrow> ia < n"
    "la \<in> set (table_list_addrs h a) \<Longrightarrow> la < n"
  using assms unfolding lives_below_def list_all_iff by auto

lemma same_below_table:
  assumes s: "same_below n h h'" and l: "lives_below n h a"
  shows "read_table h' a = read_table h a"
    and "table_inner_addrs h' a = table_inner_addrs h a"
    and "table_list_addrs h' a = table_list_addrs h a"
    and "outer_dicts h' a = outer_dicts h a"
    and "lives_below n h' a"
proof -
  have o: "outer_dicts h' a = outer_dicts h a"
    using s lives_belowD(1) [OF l] by (simp add: same_below_def)
  have i: "inner_dicts h' ia = inner_dicts h ia" if "ia \<in> set (table_inner_addrs h a)" for ia
    using s lives_belowD(2) [OF l that] by (simp add: same_below_def)
  have ls: "lists h' la = lists h la" if "la \<in> set (table_list_addrs h a)" for la
    using s lives_belowD(3) [OF l that] by (simp add: same_below_def)
  show 1: "read_table h' a = read_table h a" by (rule table_cong(1) [OF o i ls])
  show 2: "table_inner_addrs h' a = table_inner_addrs h a" by (rule table_cong(2) [OF o i ls])
  show 3: "table_list_addrs h' a = table_list_addrs h a" by (rule table_cong(3) [OF o i ls])
  show "outer_dicts h' a = outer_dicts h a" by (rule o)
  show "lives_below n h' a" using l unfolding lives_below_def 2 3 .
qed

lemma owns_from_same_below:
  assumes o: "owns_from n0 h c" and w: "wf_heap h" and s: "same_below (next_addr h) h h'"
  shows "owns_from n0 h' c" and "read_table h' c = read_table h c"
proof -
  have l: "lives_below (next_addr h) h c" by (rule lives_below_wf [OF w owns_fromD(2) [OF o]])
  note t = same_below_table [OF s l]
  have "next_addr h \<le> next_addr h'" using s by (simp add: same_below_def)
  then show "owns_from n0 h' c"
    using o unfolding owns_from_def t(2) t(3) by auto
  show "read_table h' c = read_table h c" by (rule t(1))
qed

lemma same_below_new_outer_dict: "same_below (next_addr h) h (fst (new_outer_dict h))"
  by (simp add: same_below_def new_outer_dict_def)

lemma or_new_dict_keeps:
  assumes w: "wf_heap h" and o: "owns_from n0 h c"
  shows "wf_heap (fst (or_new_dict h (Some c)))"
    and "same_below (next_addr h) h (fst (or_new_dict h (Some c)))"
    and "owns_from n0 (fst (or_new_dict h (Some c))) (snd (or_new_dict h (Some c)))"
    and "read_table (fst (or_new_dict h (Some c))) (snd (or_new_dict h (Some c))) = read_table h c"
proof -
  have "wf_heap (fst (or_new_dict h (Some c)))
      \<and> same_below (next_addr h) h (fst (or_new_dict h (Some c)))
      \<and> owns_from n0 (fst (or_new_dict h (Some c))) (snd (or_new_dict h (Some c)))
      \<and> read_table (fst (or_new_dict h (Some c))) (snd (or_new_dict h (Some c))) = read_table h c"
  proof (cases "outer_dicts h c = []")
    case False
    then have e: "or_new_dict h (Some c) = (h, c)" by (simp add: or_new_dict_def)
    show ?thesis unfolding e using w o by (simp add: same_below_refl)
  next
    case True
    then have e: "or_new_dict h (Some c) = new_outer_dict h" by (simp add: or_new_dict_def)
    have n0: "n0 \<le> next_addr h" using owns_fromD(1,2) [OF o] by simp
    have 3: "owns_from n0 (fst (new_outer_dict h)) (snd (new_outer_dict h))"
      using n0
      by (simp add: owns_from_def new_outer_dict_def table_inner_addrs_def table_list_addrs_def)
    have 4: "read_table (fst (new_outer_dict h)) (snd (new_outer_dict h)) = read_table h c"
      using True by (simp add: read_table_def new_outer_dict_def)
    show ?thesis
      unfolding e using wf_new_outer_dict [OF w] same_below_new_outer_dict 3 4 by blast
  qed
  then show "wf_heap (fst (or_new_dict h (Some c)))"
    and "same_below (next_addr h) h (fst (or_new_dict h (Some c)))"
    and "owns_from n0 (fst (or_new_dict h (Some c))) (snd (or_new_dict h (Some c)))"
    and "read_table (fst (or_new_dict h (Some c))) (snd (or_new_dict h (Some c))) = read_table h c"
    by blast+
qed

section \<open>What init preserves\<close>

text \<open>
  A property of the world that the three \<open>add\<close> operations preserve is preserved by
  every loop of \<open>init\<close>, however the module calls turn out. A decoder is only added
  for a pair for which the module has just answered \<open>get_output_colorspace\<close>.
\<close>

lemma pres_encoder_colorspaces_loop:
  assumes step: "\<And>w e c sp. P w \<Longrightarrow> P (add_encoder_spec w self e c sp)"
  shows "P w \<Longrightarrow> P (snd (encoder_colorspaces_loop w self m e cs))"
  by (induction cs arbitrary: w) (auto split: sum.splits simp: step)

lemma pres_encoder_encodings_loop:
  assumes step: "\<And>w e c sp. P w \<Longrightarrow> P (add_encoder_spec w self e c sp)"
  shows "P w \<Longrightarrow> P (snd (encoder_encodings_loop w self m es))"
proof (induction es arbitrary: w)
  case Nil then show ?case by simp
next
  case (Cons e es)
  show ?case
  proof (cases "m_get_input_colorspaces m e")
    case (Inl x) then show ?thesis using Cons.prems by simp
  next
    case (Inr cs)
    obtain r w' where l: "encoder_colorspaces_loop w self m e cs = (r, w')"
      by (cases "encoder_colorspaces_loop w self m e cs")
    from pres_encoder_colorspaces_loop [of P self, OF step Cons.prems, of m e cs] l
    have w': "P w'" by simp
    show ?thesis using Inr l w' Cons.IH [OF w'] by (cases r) simp_all
  qed
qed

lemma pres_init_video_encoders_options:
  assumes step: "\<And>w e c sp. P w \<Longrightarrow> P (add_encoder_spec w self e c sp)"
  shows "P w \<Longrightarrow> P (init_video_encoders_options E w self)"
  unfolding init_video_encoders_options_def
  by (rule fold_preserves)
     (auto split: option.splits sum.splits
           simp: init_video_encoder_option_def pres_encoder_encodings_loop [of P self, OF step])

lemma pres_csc_out_loop:
  assumes step: "\<And>w i c sp. P w \<Longrightarrow> P (add_csc_spec w self i c sp)"
  shows "P w \<Longrightarrow> P (snd (csc_out_loop w self m i cs))"
  by (induction cs arbitrary: w) (auto split: sum.splits simp: step)

lemma pres_csc_in_loop:
  assumes step: "\<And>w i c sp. P w \<Longrightarrow> P (add_csc_spec w self i c sp)"
  shows "P w \<Longrightarrow> P (snd (csc_in_loop w self m ins))"
proof (induction ins arbitrary: w)
  case Nil then show ?case by simp
next
  case (Cons i ins)
  show ?case
  proof (cases "m_get_output_colorspaces m i")
    case (Inl x) then show ?thesis using Cons.prems by simp
  next
    case (Inr cs)
    show ?thesis
    proof (cases "m_get_type m")
      case (Inl x) then show ?thesis using Cons.prems Inr by simp
    next
      case t: (Inr ty)
      obtain r w' where l: "csc_out_loop w self m i cs = (r, w')"
        by (cases "csc_out_loop w self m i cs")
      from pres_csc_out_loop [of P self, OF step Cons.prems, of m i cs] l
      have w': "P w'" by simp
      show ?thesis using Inr t l w' Cons.IH [OF w'] by (cases r) simp_all
    qed
  qed
qed

lemma pres_init_csc_options:
  assumes step: "\<And>w i c sp. P w \<Longrightarrow> P (add_csc_spec w self i c sp)"
  shows "P w \<Longrightarrow> P (init_csc_options E w self)"
  unfolding init_csc_options_def
  by (rule fold_preserves)
     (auto split: option.splits sum.splits
           simp: init_csc_option_def pres_csc_in_loop [of P self, OF step])

lemma pres_decoder_colorspaces_loop:
  assumes step: "\<And>w e c n m out. m_get_output_colorspace m e c = Inr out \<Longrightarrow> P w
                   \<Longrightarrow> P (add_decoder w self e c n m)"
  shows "P w \<Longrightarrow> P (snd (decoder_colorspaces_loop w self n m e cs))"
proof (induction cs arbitrary: w)
  case Nil then show ?case by simp
next
  case (Cons c cs)
  show ?case
  proof (cases "m_get_output_colorspace m e c")
    case (Inl x) then show ?thesis using Cons.prems by simp
  next
    case (Inr out)
    have "P (if m_Decoder m then add_decoder w self e c n m else w)"
      using step [OF Inr Cons.prems] Cons.prems by simp
    from Cons.IH [OF this] show ?thesis using Inr by simp
  qed
qed

lemma pres_decoder_encodings_loop:
  assumes step: "\<And>w e c n m out. m_get_output_colorspace m e c = Inr out \<Longrightarrow> P w
                   \<Longrightarrow> P (add_decoder w self e c n m)"
  shows "P w \<Longrightarrow> P (snd (decoder_encodings_loop w self n m es))"
proof (induction es arbitrary: w)
  case Nil then show ?case by simp
next
  case (Cons e es)
  show ?case
  proof (cases "m_get_input_colorspaces m e")
    case (Inl x) then show ?thesis using Cons.prems by simp
  next
    case (Inr cs)
    obtain r w' where l: "decoder_colorspaces_loop w self n m e cs = (r, w')"
      by (cases "decoder_colorspaces_loop w self n m e cs")
    have "P (snd (decoder_colorspaces_loop w self n m e cs))"
      using step Cons.prems by (rule pres_decoder_colorspaces_loop)
    with l have w': "P w'" by simp
    show ?thesis using Inr l w' Cons.IH [OF w'] by (cases r) simp_all
  qed
qed

lemma pres_init_video_decoder_option:
  assumes step: "\<And>w e c n m out. m_get_output_colorspace m e c = Inr out \<Longrightarrow> P w
                   \<Longrightarrow> P (add_decoder w self e c n m)"
  shows "P w \<Longrightarrow> P (snd (init_video_decoder_option E w self n))"
proof -
  assume w: "P w"
  have "P (snd (decoder_encodings_loop w self n m es))" for m es
    using step w by (rule pres_decoder_encodings_loop)
  then show ?thesis
    using w by (auto simp: init_video_decoder_option_def split: option.splits sum.splits)
qed

lemma pres_init_video_decoders_options:
  assumes step: "\<And>w e c n m out. m_get_output_colorspace m e c = Inr out \<Longrightarrow> P w
                   \<Longrightarrow> P (add_decoder w self e c n m)"
  shows "P w \<Longrightarrow> P (init_video_decoders_options E w self)"
  unfolding init_video_decoders_options_def
proof (rule fold_preserves)
  fix y acc' assume "P acc'"
  then have "P (snd (init_video_decoder_option E acc' self (get_decoder_module_name y)))"
    using step by (rule pres_init_video_decoder_option [rotated])
  then show "P (case load_codec E (get_decoder_module_name y) of
                  Some e \<Rightarrow> acc'
                | None \<Rightarrow> snd (init_video_decoder_option E acc' self (get_decoder_module_name y)))"
    using \<open>P acc'\<close> by (simp split: option.splits)
qed

lemma pres_init:
  assumes enc: "\<And>w e c sp. P w \<Longrightarrow> P (add_encoder_spec w self e c sp)"
    and csc: "\<And>w i c sp. P w \<Longrightarrow> P (add_csc_spec w self i c sp)"
    and dec: "\<And>w e c n m out. m_get_output_colorspace m e c = Inr out \<Longrightarrow> P w
                \<Longrightarrow> P (add_decoder w self e c n m)"
    and w: "P w"
  shows "P (fst (init E w self))"
proof (cases "initialized self")
  case True then show ?thesis using w by (simp add: init_def)
next
  case False
  have "P (init_video_decoders_options E
            (init_csc_options E (init_video_encoders_options E w self) self) self)"
  proof (rule pres_init_video_decoders_options [where P = P and self = self])
    show "P (add_decoder w' self e c n m)"
      if "m_get_output_colorspace m e c = Inr out" "P w'" for w' e c n m out
      using that by (rule dec)
    show "P (init_csc_options E (init_video_encoders_options E w self) self)"
      by (intro pres_init_csc_options [of P self, OF csc]
                pres_init_video_encoders_options [of P self, OF enc] w)
  qed
  then show ?thesis using False by (simp add: init_def Let_def)
qed

lemma init_tables: 
  "video_encoder_specs (snd (init E w self)) = video_encoder_specs self"
  "csc_encoder_specs (snd (init E w self)) = csc_encoder_specs self"
  "video_decoder_specs (snd (init E w self)) = video_decoder_specs self"
  by (simp_all add: init_def Let_def)

section \<open>init keeps the stores well formed\<close>

lemma wf_add_encoder_spec:
  "wf_world_from w0 w \<Longrightarrow> wf_world_from w0 (add_encoder_spec w self e c sp)"
  using next_table_add [of "spec_heap w" "video_encoder_specs self" e c sp]
  by (simp add: wf_world_from_def add_encoder_spec_def wf_table_add)

lemma wf_add_csc_spec:
  "wf_world_from w0 w \<Longrightarrow> wf_world_from w0 (add_csc_spec w self i c sp)"
  using next_table_add [of "spec_heap w" "csc_encoder_specs self" i c sp]
  by (simp add: wf_world_from_def add_csc_spec_def wf_table_add)

lemma wf_add_decoder:
  "wf_world_from w0 w \<Longrightarrow> wf_world_from w0 (add_decoder w self e c n m)"
  using next_table_add [of "dec_heap w" "video_decoder_specs self" e c "(n, m)"]
  by (simp add: wf_world_from_def add_decoder_def wf_table_add)

lemma wf_registry_init:
  assumes "wf_registry w self"
  shows "wf_registry (fst (init E w self)) (snd (init E w self))"
proof -
  from assms have "wf_world_from w w" by (simp add: wf_registry_def wf_world_from_def)
  have "wf_world_from w (fst (init E w self))"
  proof (rule pres_init [where P = "wf_world_from w" and self = self])
    show "wf_world_from w (add_encoder_spec w' self e c sp)" if "wf_world_from w w'" for w' e c sp
      using that by (rule wf_add_encoder_spec)
    show "wf_world_from w (add_csc_spec w' self i c sp)" if "wf_world_from w w'" for w' i c sp
      using that by (rule wf_add_csc_spec)
    show "wf_world_from w (add_decoder w' self e c n m)"
      if "m_get_output_colorspace m e c = Inr out" "wf_world_from w w'" for w' e c n m out
      using that(2) by (rule wf_add_decoder)
    show "wf_world_from w w" by fact
  qed
  then show ?thesis using assms
    by (auto simp: wf_registry_def wf_world_from_def init_tables)
qed

section \<open>Copies\<close>

lemma distinct_keys_read_table:
  assumes w: "wf_heap h"
  shows "distinct_keys (read_table h a)"
proof -
  have k: "map fst (read_table h a) = map fst (outer_dicts h a)"
    by (simp add: read_table_def case_prod_beta comp_def)
  have i: "map fst (read_inner h ia) = map fst (inner_dicts h ia)" for ia
    by (simp add: read_inner_def case_prod_beta comp_def)
  show ?thesis
    unfolding distinct_keys_def k list_all_iff
    using wf_heapD(1,2) [OF w] by (auto simp: read_table_def i)
qed

lemma owns_from_mono: "owns_from n h c \<Longrightarrow> m \<le> n \<Longrightarrow> owns_from m h c"
  unfolding owns_from_def list_all_iff by auto

lemma is_copy_deepish:
  assumes w: "wf_heap h" and l: "lives_below n0 h a" and n: "n0 \<le> next_addr h"
  shows "is_copy n0 (fst (deepish_clone_dict h a)) a (snd (deepish_clone_dict h a))"
    and "same_below (next_addr h) h (fst (deepish_clone_dict h a))"
proof -
  have a: "a < next_addr h" using lives_belowD(1) [OF l] n by simp
  note d = deepish_clone_dict_copy [OF w a]
  have sb: "same_below n0 h (fst (deepish_clone_dict h a))"
    by (rule same_below_mono [OF d(4) n])
  note t = same_below_table [OF sb l]
  have "copy_into (read_table h a) [] = [] @ prune_table (read_table h a)"
    by (rule copy_into_eq [OF distinct_keys_read_table [OF w]]) simp
  then have r: "read_table (fst (deepish_clone_dict h a)) (snd (deepish_clone_dict h a)) =
                 prune_table (read_table (fst (deepish_clone_dict h a)) a)"
    by (simp add: d(5) t(1))
  show "is_copy n0 (fst (deepish_clone_dict h a)) a (snd (deepish_clone_dict h a))"
    unfolding is_copy_def
    using d(1) owns_from_mono [OF d(3) n] t(5) r by blast
  show "same_below (next_addr h) h (fst (deepish_clone_dict h a))" by (rule d(4))
qed

lemma is_copy_same_below:
  assumes c: "is_copy n0 h a c" and s: "same_below (next_addr h) h h'" and w': "wf_heap h'"
  shows "is_copy n0 h' a c"
proof -
  from c have w: "wf_heap h" and o: "owns_from n0 h c" and l: "lives_below n0 h a"
    and r: "read_table h c = prune_table (read_table h a)"
    by (simp_all add: is_copy_def)
  have n: "n0 \<le> next_addr h" using owns_fromD(1,2) [OF o] by simp
  note t = same_below_table [OF same_below_mono [OF s n] l]
  note u = owns_from_same_below [OF o w s]
  show ?thesis unfolding is_copy_def using w' u(1) t(5) by (simp add: u(2) t(1) r)
qed

lemma is_copy_or_new_dict:
  assumes c: "is_copy n0 h a c"
  shows "is_copy n0 (fst (or_new_dict h (Some c))) a (snd (or_new_dict h (Some c)))"
proof -
  from c have w: "wf_heap h" and o: "owns_from n0 h c" and l: "lives_below n0 h a"
    and r: "read_table h c = prune_table (read_table h a)"
    by (simp_all add: is_copy_def)
  note k = or_new_dict_keeps [OF w o]
  have n: "n0 \<le> next_addr h" using owns_fromD(1,2) [OF o] by simp
  note t = same_below_table [OF same_below_mono [OF k(2) n] l]
  show ?thesis unfolding is_copy_def using k(1) k(3) t(5) by (simp add: k(4) t(1) r)
qed

lemma lives_below_same_below:
  "lives_below n0 h a \<Longrightarrow> same_below n0 h h' \<Longrightarrow> lives_below n0 h' a"
  by (rule same_below_table(5))

text \<open>Adding to either table of a copy pair leaves the other table as it is.\<close>

lemma add_to_copy_keeps_source:
  assumes c: "is_copy n0 h a c"
  shows "read_table (table_add h c k1 k2 v) a = read_table h a"
    and "outer_dicts (table_add h c k1 k2 v) a = outer_dicts h a"
proof -
  from c have w: "wf_heap h" and o: "owns_from n0 h c" and l: "lives_below n0 h a"
    by (simp_all add: is_copy_def)
  note t = same_below_table [OF same_below_table_add_owned [OF w o] l]
  show "read_table (table_add h c k1 k2 v) a = read_table h a" by (rule t(1))
  show "outer_dicts (table_add h c k1 k2 v) a = outer_dicts h a" by (rule t(4))
qed

lemma add_to_source_keeps_copy:
  assumes c: "is_copy n0 h a c"
  shows "read_table (table_add h a k1 k2 v) c = read_table h c"
    and "outer_dicts (table_add h a k1 k2 v) c = outer_dicts h c"
proof -
  from c have w: "wf_heap h" and o: "owns_from n0 h c" and l: "lives_below n0 h a"
    by (simp_all add: is_copy_def)
  have ne: "c \<noteq> a" using owns_fromD(1) [OF o] lives_belowD(1) [OF l] by simp
  show oo: "outer_dicts (table_add h a k1 k2 v) c = outer_dicts h c"
    by (rule table_add_outer_other [OF ne])
  have i: "inner_dicts (table_add h a k1 k2 v) ia = inner_dicts h ia"
    if "ia \<in> set (table_inner_addrs h c)" for ia
  proof (rule table_add_inner_other)
    show "ia \<notin> set (table_inner_addrs h a)"
      using owns_fromD(3) [OF o that] lives_belowD(2) [OF l, of ia] by auto
    show "ia < next_addr h" by (rule inner_addr_lt [OF w that])
  qed
  have ls: "lists (table_add h a k1 k2 v) la = lists h la"
    if "la \<in> set (table_list_addrs h c)" for la
  proof (rule table_add_lists_other)
    show "la \<notin> set (table_list_addrs h a)"
      using owns_fromD(4) [OF o that] lives_belowD(3) [OF l, of la] by auto
    show "la < next_addr h" by (rule list_addr_lt [OF w that])
  qed
  show "read_table (table_add h a k1 k2 v) c = read_table h c"
    by (rule table_cong(1) [OF oo i ls])
qed

section \<open>Tables built by the add operations have no empty container\<close>

lemma nonempty_table_iff: "nonempty_table h a \<longleftrightarrow> no_empty_entries (read_table h a)"
proof -
  have i: "(\<forall>p \<in> set (read_inner h ia). snd p \<noteq> []) \<longleftrightarrow>
           (\<forall>q \<in> set (inner_dicts h ia). lists h (snd q) \<noteq> [])" for ia
    by (auto simp: read_inner_def case_prod_beta)
  have "no_empty_entries (read_table h a) \<longleftrightarrow>
          (\<forall>r \<in> set (outer_dicts h a). inner_dicts h (snd r) \<noteq> []
              \<and> (\<forall>q \<in> set (inner_dicts h (snd r)). lists h (snd q) \<noteq> []))"
    unfolding no_empty_entries_def list_all_iff read_table_def
    by (simp add: case_prod_beta i) (simp add: read_inner_def)
  also have "\<dots> \<longleftrightarrow> nonempty_table h a"
    unfolding nonempty_table_def list_all_iff table_inner_addrs_def table_list_addrs_def
    by auto
  finally show ?thesis by simp
qed

lemma nonempty_tableI:
  assumes "\<And>k ia. (k, ia) \<in> set (outer_dicts h a) \<Longrightarrow> inner_dicts h ia \<noteq> []"
    and "\<And>k ia k2 la. (k, ia) \<in> set (outer_dicts h a) \<Longrightarrow> (k2, la) \<in> set (inner_dicts h ia)
           \<Longrightarrow> lists h la \<noteq> []"
  shows "nonempty_table h a"
  using assms
  unfolding nonempty_table_def list_all_iff table_inner_addrs_def table_list_addrs_def
  by auto

lemma nonempty_tableD:
  assumes "nonempty_table h a"
  shows "(k, ia) \<in> set (outer_dicts h a) \<Longrightarrow> inner_dicts h ia \<noteq> []"
    and "(k, ia) \<in> set (outer_dicts h a) \<Longrightarrow> (k2, la) \<in> set (inner_dicts h ia) \<Longrightarrow> lists h la \<noteq> []"
  using assms
  unfolding nonempty_table_def list_all_iff table_inner_addrs_def table_list_addrs_def
  by force+

lemma nonempty_table_add_same:
  assumes w: "wf_heap h" and n: "nonempty_table h b"
  shows "nonempty_table (table_add h b k1 k2 v) b"
proof (cases "map_of (outer_dicts h b) k1")
  case None
  note e = table_add_new_outer [OF None, of k2 v]
  show ?thesis
    unfolding e
    by (rule nonempty_tableI)
       (auto split: if_splits dest: nonempty_tableD [OF n] wf_heapD(3,4) [OF w])
next
  case (Some ia0)
  show ?thesis
  proof (cases "map_of (inner_dicts h ia0) k2")
    case None
    note e = table_add_new_inner [OF Some None, of v]
    show ?thesis
      unfolding e
      by (rule nonempty_tableI)
         (auto split: if_splits dest: nonempty_tableD [OF n] wf_heapD(3,4) [OF w])
  next
    case la: (Some la0)
    note e = table_add_existing [OF Some la, of v]
    show ?thesis
      unfolding e
      by (rule nonempty_tableI)
         (auto split: if_splits dest: nonempty_tableD [OF n])
  qed
qed

lemma nonempty_table_add_other:
  assumes w: "wf_heap h" and n: "nonempty_table h a" and ab: "a \<noteq> b"
  shows "nonempty_table (table_add h b k1 k2 v) a"
proof (cases "map_of (outer_dicts h b) k1")
  case None
  note e = table_add_new_outer [OF None, of k2 v]
  show ?thesis
    unfolding e
    by (rule nonempty_tableI)
       (use ab in \<open>auto split: if_splits dest: nonempty_tableD [OF n] wf_heapD(3,4) [OF w]\<close>)
next
  case (Some ia0)
  show ?thesis
  proof (cases "map_of (inner_dicts h ia0) k2")
    case None
    note e = table_add_new_inner [OF Some None, of v]
    show ?thesis
      unfolding e
      by (rule nonempty_tableI)
         (use ab in \<open>auto split: if_splits dest: nonempty_tableD [OF n] wf_heapD(3,4) [OF w]\<close>)
  next
    case la: (Some la0)
    note e = table_add_existing [OF Some la, of v]
    show ?thesis
      unfolding e
      by (rule nonempty_tableI)
         (use ab in \<open>auto split: if_splits dest: nonempty_tableD [OF n]\<close>)
  qed
qed

lemma nonempty_table_add:
  assumes w: "wf_heap h" and n: "nonempty_table h a"
  shows "nonempty_table (table_add h b k1 k2 v) a"
proof (cases "a = b")
  case True
  with n have "nonempty_table h b" by simp
  from nonempty_table_add_same [OF w this] True show ?thesis by simp
next
  case False
  then show ?thesis by (rule nonempty_table_add_other [OF w n])
qed


lemma init_no_empty_entries:
  assumes wr: "wf_registry w self"
    and n1: "no_empty_entries (read_table (spec_heap w) (video_encoder_specs self))"
    and n2: "no_empty_entries (read_table (spec_heap w) (csc_encoder_specs self))"
    and n3: "no_empty_entries (read_table (dec_heap w) (video_decoder_specs self))"
  shows "no_empty_entries (read_table (spec_heap (fst (init E w self)))
                             (video_encoder_specs (snd (init E w self))))"
    and "no_empty_entries (read_table (spec_heap (fst (init E w self)))
                             (csc_encoder_specs (snd (init E w self))))"
    and "no_empty_entries (read_table (dec_heap (fst (init E w self)))
                             (video_decoder_specs (snd (init E w self))))"
proof -
  let ?P = "\<lambda>w'. wf_world_from w w'
              \<and> nonempty_table (spec_heap w') (video_encoder_specs self)
              \<and> nonempty_table (spec_heap w') (csc_encoder_specs self)
              \<and> nonempty_table (dec_heap w') (video_decoder_specs self)"
  have "?P (fst (init E w self))"
  proof (rule pres_init [where P = ?P and self = self])
    show "?P (add_encoder_spec w' self e c sp)" if "?P w'" for w' e c sp
    proof -
      from that have wf: "wf_heap (spec_heap w')" by (simp add: wf_world_from_def)
      show ?thesis
        using that wf_add_encoder_spec [of w w' self e c sp]
        by (simp add: add_encoder_spec_def nonempty_table_add [OF wf])
    qed
    show "?P (add_csc_spec w' self i c sp)" if "?P w'" for w' i c sp
    proof -
      from that have wf: "wf_heap (spec_heap w')" by (simp add: wf_world_from_def)
      show ?thesis
        using that wf_add_csc_spec [of w w' self i c sp]
        by (simp add: add_csc_spec_def nonempty_table_add [OF wf])
    qed
    show "?P (add_decoder w' self e c n m)"
      if "m_get_output_colorspace m e c = Inr out" "?P w'" for w' e c n m out
    proof -
      from that(2) have wf: "wf_heap (dec_heap w')" by (simp add: wf_world_from_def)
      show ?thesis
        using that(2) wf_add_decoder [of w w' self e c n m]
        by (simp add: add_decoder_def nonempty_table_add [OF wf])
    qed
    show "?P w"
      using wr n1 n2 n3 by (simp add: wf_registry_def wf_world_from_def nonempty_table_iff)
  qed
  then show "no_empty_entries (read_table (spec_heap (fst (init E w self)))
                             (video_encoder_specs (snd (init E w self))))"
    and "no_empty_entries (read_table (spec_heap (fst (init E w self)))
                             (csc_encoder_specs (snd (init E w self))))"
    and "no_empty_entries (read_table (dec_heap (fst (init E w self)))
                             (video_decoder_specs (snd (init E w self))))"
    by (simp_all add: nonempty_table_iff init_tables)
qed

text \<open>A registry made by \<open>VideoHelper()\<close> in a well-formed store starts with empty tables.\<close>

lemma fresh_registry:
  assumes "wf_heap (spec_heap w)" "wf_heap (dec_heap w)"
  shows "wf_registry (fst (VideoHelper_init w None None None flag))
                     (snd (VideoHelper_init w None None None flag))"
    and "read_table (spec_heap (fst (VideoHelper_init w None None None flag)))
           (video_encoder_specs (snd (VideoHelper_init w None None None flag))) = []"
    and "read_table (spec_heap (fst (VideoHelper_init w None None None flag)))
           (csc_encoder_specs (snd (VideoHelper_init w None None None flag))) = []"
    and "read_table (dec_heap (fst (VideoHelper_init w None None None flag)))
           (video_decoder_specs (snd (VideoHelper_init w None None None flag))) = []"
proof -
  have 1: "wf_heap (fst (new_outer_dict (fst (new_outer_dict (spec_heap w)))))"
    by (intro wf_new_outer_dict assms)
  have 2: "wf_heap (fst (new_outer_dict (dec_heap w)))"
    by (intro wf_new_outer_dict assms)
  show "wf_registry (fst (VideoHelper_init w None None None flag))
                     (snd (VideoHelper_init w None None None flag))"
    using 1 2 by (simp add: wf_registry_def VideoHelper_init_def or_new_dict_def case_prod_beta)
                 (simp add: new_outer_dict_def)
  show "read_table (spec_heap (fst (VideoHelper_init w None None None flag)))
           (video_encoder_specs (snd (VideoHelper_init w None None None flag))) = []"
    and "read_table (spec_heap (fst (VideoHelper_init w None None None flag)))
           (csc_encoder_specs (snd (VideoHelper_init w None None None flag))) = []"
    and "read_table (dec_heap (fst (VideoHelper_init w None None None flag)))
           (video_decoder_specs (snd (VideoHelper_init w None None None flag))) = []"
    by (simp_all add: VideoHelper_init_def or_new_dict_def new_outer_dict_def read_table_def)
qed

section \<open>Properties of clone\<close>

lemma same_below_next: "same_below n h h' \<Longrightarrow> next_addr h \<le> next_addr h'"
  by (simp add: same_below_def)

lemma is_copy_wf: "is_copy n0 h a c \<Longrightarrow> wf_heap h"
  by (simp add: is_copy_def)

text \<open>What the two copies made in one store, one after the other, come to.\<close>

lemma two_copies:
  assumes w: "wf_heap S0" and a: "a < next_addr S0" and b: "b < next_addr S0"
  defines "S1 \<equiv> fst (deepish_clone_dict S0 a)"
  defines "ves \<equiv> snd (deepish_clone_dict S0 a)"
  defines "S2 \<equiv> fst (deepish_clone_dict S1 b)"
  defines "ces \<equiv> snd (deepish_clone_dict S1 b)"
  defines "S3 \<equiv> fst (or_new_dict S2 (Some ves))"
  defines "ves' \<equiv> snd (or_new_dict S2 (Some ves))"
  defines "S4 \<equiv> fst (or_new_dict S3 (Some ces))"
  defines "ces' \<equiv> snd (or_new_dict S3 (Some ces))"
  shows "is_copy (next_addr S0) S4 a ves'" and "is_copy (next_addr S0) S4 b ces'"
    and "same_below (next_addr S0) S0 S4"
proof -
  let ?n = "next_addr S0"
  have la: "lives_below ?n S0 a" by (rule lives_below_wf [OF w a])
  have lb: "lives_below ?n S0 b" by (rule lives_below_wf [OF w b])
  have c1: "is_copy ?n S1 a ves" and sb1: "same_below ?n S0 S1"
    unfolding S1_def ves_def by (rule is_copy_deepish [OF w la le_refl])+
  have n1: "?n \<le> next_addr S1" by (rule same_below_next [OF sb1])
  have lb1: "lives_below ?n S1 b" by (rule lives_below_same_below [OF lb sb1])
  have c2: "is_copy ?n S2 b ces" and sb2: "same_below (next_addr S1) S1 S2"
    unfolding S2_def ces_def by (rule is_copy_deepish [OF is_copy_wf [OF c1] lb1 n1])+
  have c1a: "is_copy ?n S2 a ves"
    by (rule is_copy_same_below [OF c1 sb2 is_copy_wf [OF c2]])
  have c1b: "is_copy ?n S3 a ves'"
    unfolding S3_def ves'_def by (rule is_copy_or_new_dict [OF c1a])
  have sb3: "same_below (next_addr S2) S2 S3"
    unfolding S3_def
    using c1a or_new_dict_keeps(2) [of S2 ?n ves] by (simp add: is_copy_def)
  have c2a: "is_copy ?n S3 b ces"
    by (rule is_copy_same_below [OF c2 sb3 is_copy_wf [OF c1b]])
  show c2b: "is_copy ?n S4 b ces'"
    unfolding S4_def ces'_def by (rule is_copy_or_new_dict [OF c2a])
  have sb4: "same_below (next_addr S3) S3 S4"
    unfolding S4_def
    using c2a or_new_dict_keeps(2) [of S3 ?n ces] by (simp add: is_copy_def)
  show "is_copy ?n S4 a ves'"
    by (rule is_copy_same_below [OF c1b sb4 is_copy_wf [OF c2b]])
  have n2: "?n \<le> next_addr S2" using n1 same_below_next [OF sb2] by simp
  have n3: "?n \<le> next_addr S3" using n2 same_below_next [OF sb3] by simp
  show "same_below ?n S0 S4"
    by (rule same_below_trans [OF same_below_trans [OF same_below_trans
          [OF sb1 same_below_mono [OF sb2 n1]] same_below_mono [OF sb3 n2]]
          same_below_mono [OF sb4 n3]])
qed

lemma one_copy:
  assumes w: "wf_heap D0" and a: "a < next_addr D0"
  defines "D1 \<equiv> fst (deepish_clone_dict D0 a)"
  defines "vds \<equiv> snd (deepish_clone_dict D0 a)"
  defines "D2 \<equiv> fst (or_new_dict D1 (Some vds))"
  defines "vds' \<equiv> snd (or_new_dict D1 (Some vds))"
  shows "is_copy (next_addr D0) D2 a vds'" and "same_below (next_addr D0) D0 D2"
proof -
  let ?n = "next_addr D0"
  have la: "lives_below ?n D0 a" by (rule lives_below_wf [OF w a])
  have c1: "is_copy ?n D1 a vds" and sb1: "same_below ?n D0 D1"
    unfolding D1_def vds_def by (rule is_copy_deepish [OF w la le_refl])+
  show "is_copy ?n D2 a vds'"
    unfolding D2_def vds'_def by (rule is_copy_or_new_dict [OF c1])
  have sb2: "same_below (next_addr D1) D1 D2"
    unfolding D2_def
    using c1 or_new_dict_keeps(2) [of D1 ?n vds] by (simp add: is_copy_def)
  show "same_below ?n D0 D2"
    by (rule same_below_trans [OF sb1 same_below_mono [OF sb2 same_below_next [OF sb1]]])
qed

lemma clone_eq:
  "clone E w self =
    (let w1 = fst (init E w self); self1 = snd (init E w self);
         S1 = fst (deepish_clone_dict (spec_heap w1) (video_encoder_specs self1));
         ves = snd (deepish_clone_dict (spec_heap w1) (video_encoder_specs self1));
         S2 = fst (deepish_clone_dict S1 (csc_encoder_specs self1));
         ces = snd (deepish_clone_dict S1 (csc_encoder_specs self1));
         S3 = fst (or_new_dict S2 (Some ves));
         ves' = snd (or_new_dict S2 (Some ves));
         S4 = fst (or_new_dict S3 (Some ces));
         ces' = snd (or_new_dict S3 (Some ces));
         D1 = fst (deepish_clone_dict (dec_heap w1) (video_decoder_specs self1));
         vds = snd (deepish_clone_dict (dec_heap w1) (video_decoder_specs self1));
         D2 = fst (or_new_dict D1 (Some vds));
         vds' = snd (or_new_dict D1 (Some vds))
     in (w1\<lparr>spec_heap := S4, dec_heap := D2\<rparr>, self1,
         \<lparr>video_encoder_specs = ves', csc_encoder_specs = ces', video_decoder_specs = vds',
          video_encoders = [], csc_modules = [], video_decoders = [],
          cleanup_modules = [], initialized = True\<rparr>))"
proof -
  have i: "(if \<not> initialized self then init E w self else (w, self)) = init E w self"
    by (simp add: init_def)
  show ?thesis
    unfolding clone_def i by (simp add: VideoHelper_init_def Let_def case_prod_beta)
qed


lemma copy_contents:
  assumes c: "is_copy n0 h a c"
  shows "table_entries (read_table h c) = table_entries (read_table h a)"
    and "no_empty_entries (read_table h a) \<longrightarrow> read_table h c = read_table h a"
    and "owns_from n0 h c" and "lives_below n0 h a"
    and "read_table h c = prune_table (read_table h a)"
  using c by (simp_all add: is_copy_def table_entries_prune prune_table_no_empty)

text \<open>
  Claim C3, as the code has it. On a registry in a well-formed store, \<open>clone\<close> first runs
  \<open>init\<close> (a no-op when the registry is initialised) and returns a new registry, marked
  initialised. Each of its three tables is made only of objects allocated by the call (new
  outer dictionary, new inner dictionaries, new lists, none of them shared), while the
  tables of the source are made of older objects and read as before. Each new table holds
  the same (key, key, value) entries as the source table, with the identical spec values:
  it is the source table without its empty lists and empty inner dictionaries, which the
  walk over the values does not carry over, and so it is equal to the source table when
  that has none (as every table built by \<open>init\<close> has). Adding an encoder spec to the clone
  leaves \<open>get_encodings\<close> and the whole encoder table of the source unchanged, and adding
  one to the source leaves those of the clone unchanged.
\<close>

theorem clone_structurally_independent:
  assumes wr: "wf_registry w self"
  shows "case clone E w self of (w', self', c) \<Rightarrow>
      initialized c \<and> initialized self' \<and> self' = snd (init E w self)
    \<and> read_table (spec_heap w') (video_encoder_specs self') =
        read_table (spec_heap (fst (init E w self))) (video_encoder_specs self')
    \<and> read_table (spec_heap w') (csc_encoder_specs self') =
        read_table (spec_heap (fst (init E w self))) (csc_encoder_specs self')
    \<and> read_table (dec_heap w') (video_decoder_specs self') =
        read_table (dec_heap (fst (init E w self))) (video_decoder_specs self')
    \<and> table_entries (read_table (spec_heap w') (video_encoder_specs c)) =
        table_entries (read_table (spec_heap w') (video_encoder_specs self'))
    \<and> table_entries (read_table (spec_heap w') (csc_encoder_specs c)) =
        table_entries (read_table (spec_heap w') (csc_encoder_specs self'))
    \<and> table_entries (read_table (dec_heap w') (video_decoder_specs c)) =
        table_entries (read_table (dec_heap w') (video_decoder_specs self'))
    \<and> read_table (spec_heap w') (video_encoder_specs c) =
        prune_table (read_table (spec_heap w') (video_encoder_specs self'))
    \<and> read_table (spec_heap w') (csc_encoder_specs c) =
        prune_table (read_table (spec_heap w') (csc_encoder_specs self'))
    \<and> read_table (dec_heap w') (video_decoder_specs c) =
        prune_table (read_table (dec_heap w') (video_decoder_specs self'))
    \<and> (no_empty_entries (read_table (spec_heap w') (video_encoder_specs self')) \<longrightarrow>
         read_table (spec_heap w') (video_encoder_specs c) =
         read_table (spec_heap w') (video_encoder_specs self'))
    \<and> (no_empty_entries (read_table (spec_heap w') (csc_encoder_specs self')) \<longrightarrow>
         read_table (spec_heap w') (csc_encoder_specs c) =
         read_table (spec_heap w') (csc_encoder_specs self'))
    \<and> (no_empty_entries (read_table (dec_heap w') (video_decoder_specs self')) \<longrightarrow>
         read_table (dec_heap w') (video_decoder_specs c) =
         read_table (dec_heap w') (video_decoder_specs self'))
    \<and> owns_from (next_addr (spec_heap (fst (init E w self)))) (spec_heap w') (video_encoder_specs c)
    \<and> owns_from (next_addr (spec_heap (fst (init E w self)))) (spec_heap w') (csc_encoder_specs c)
    \<and> owns_from (next_addr (dec_heap (fst (init E w self)))) (dec_heap w') (video_decoder_specs c)
    \<and> lives_below (next_addr (spec_heap (fst (init E w self)))) (spec_heap w') (video_encoder_specs self')
    \<and> lives_below (next_addr (spec_heap (fst (init E w self)))) (spec_heap w') (csc_encoder_specs self')
    \<and> lives_below (next_addr (dec_heap (fst (init E w self)))) (dec_heap w') (video_decoder_specs self')
    \<and> (\<forall>encoding colorspace sp.
          get_encodings (add_encoder_spec w' c encoding colorspace sp) self' = get_encodings w' self'
        \<and> read_table (spec_heap (add_encoder_spec w' c encoding colorspace sp))
                      (video_encoder_specs self') =
            read_table (spec_heap w') (video_encoder_specs self'))
    \<and> (\<forall>encoding colorspace sp.
          get_encodings (add_encoder_spec w' self' encoding colorspace sp) c = get_encodings w' c
        \<and> read_table (spec_heap (add_encoder_spec w' self' encoding colorspace sp))
                      (video_encoder_specs c) =
            read_table (spec_heap w') (video_encoder_specs c))"
proof -
  define w1 where "w1 = fst (init E w self)"
  define self1 where "self1 = snd (init E w self)"
  define S1 where "S1 = fst (deepish_clone_dict (spec_heap w1) (video_encoder_specs self1))"
  define ves where "ves = snd (deepish_clone_dict (spec_heap w1) (video_encoder_specs self1))"
  define S2 where "S2 = fst (deepish_clone_dict S1 (csc_encoder_specs self1))"
  define ces where "ces = snd (deepish_clone_dict S1 (csc_encoder_specs self1))"
  define S3 where "S3 = fst (or_new_dict S2 (Some ves))"
  define ves' where "ves' = snd (or_new_dict S2 (Some ves))"
  define S4 where "S4 = fst (or_new_dict S3 (Some ces))"
  define ces' where "ces' = snd (or_new_dict S3 (Some ces))"
  define D1 where "D1 = fst (deepish_clone_dict (dec_heap w1) (video_decoder_specs self1))"
  define vds where "vds = snd (deepish_clone_dict (dec_heap w1) (video_decoder_specs self1))"
  define D2 where "D2 = fst (or_new_dict D1 (Some vds))"
  define vds' where "vds' = snd (or_new_dict D1 (Some vds))"
  define c where "c = \<lparr>video_encoder_specs = ves', csc_encoder_specs = ces',
          video_decoder_specs = vds', video_encoders = [], csc_modules = [], video_decoders = [],
          cleanup_modules = [], initialized = True\<rparr>"
  define w' where "w' = w1\<lparr>spec_heap := S4, dec_heap := D2\<rparr>"
  have cl: "clone E w self = (w', self1, c)"
    unfolding clone_eq Let_def w'_def c_def vds'_def D2_def vds_def D1_def ces'_def S4_def
      ves'_def S3_def ces_def S2_def ves_def S1_def self1_def w1_def ..
  have wr1: "wf_registry w1 self1"
    unfolding w1_def self1_def by (rule wf_registry_init [OF wr])
  then have ws: "wf_heap (spec_heap w1)" and wd: "wf_heap (dec_heap w1)"
    and a1: "video_encoder_specs self1 < next_addr (spec_heap w1)"
    and a2: "csc_encoder_specs self1 < next_addr (spec_heap w1)"
    and a3: "video_decoder_specs self1 < next_addr (dec_heap w1)"
    by (simp_all add: wf_registry_def)
  let ?ns = "next_addr (spec_heap w1)"
  let ?nd = "next_addr (dec_heap w1)"
  have e: "is_copy ?ns S4 (video_encoder_specs self1) ves'"
    and s: "is_copy ?ns S4 (csc_encoder_specs self1) ces'"
    and bs: "same_below ?ns (spec_heap w1) S4"
    unfolding S4_def ces'_def S3_def ves'_def S2_def ces_def S1_def ves_def
    by (rule two_copies [OF ws a1 a2])+
  have d: "is_copy ?nd D2 (video_decoder_specs self1) vds'"
    and bd: "same_below ?nd (dec_heap w1) D2"
    unfolding D2_def vds'_def D1_def vds_def by (rule one_copy [OF wd a3])+
  have i1: "initialized self1" unfolding self1_def by (rule init_initialized)
  have sh: "spec_heap w' = S4" "dec_heap w' = D2" by (simp_all add: w'_def)
  have cf: "video_encoder_specs c = ves'" "csc_encoder_specs c = ces'"
    "video_decoder_specs c = vds'" "initialized c" by (simp_all add: c_def)
  have r1: "read_table S4 (video_encoder_specs self1) =
              read_table (spec_heap w1) (video_encoder_specs self1)"
    by (rule same_below_table(1) [OF bs lives_below_wf [OF ws a1]])
  have r2: "read_table S4 (csc_encoder_specs self1) =
              read_table (spec_heap w1) (csc_encoder_specs self1)"
    by (rule same_below_table(1) [OF bs lives_below_wf [OF ws a2]])
  have r3: "read_table D2 (video_decoder_specs self1) =
              read_table (dec_heap w1) (video_decoder_specs self1)"
    by (rule same_below_table(1) [OF bd lives_below_wf [OF wd a3]])
  have f1: "get_encodings (add_encoder_spec w' c encoding colorspace sp) self1 = get_encodings w' self1
        \<and> read_table (spec_heap (add_encoder_spec w' c encoding colorspace sp))
                      (video_encoder_specs self1) =
            read_table (spec_heap w') (video_encoder_specs self1)" for encoding colorspace sp
    using add_to_copy_keeps_source [OF e, of encoding colorspace sp]
    by (simp add: get_encodings_def add_encoder_spec_def sh cf)
  have f2: "get_encodings (add_encoder_spec w' self1 encoding colorspace sp) c = get_encodings w' c
        \<and> read_table (spec_heap (add_encoder_spec w' self1 encoding colorspace sp))
                      (video_encoder_specs c) =
            read_table (spec_heap w') (video_encoder_specs c)" for encoding colorspace sp
    using add_to_source_keeps_copy [OF e, of encoding colorspace sp]
    by (simp add: get_encodings_def add_encoder_spec_def sh cf)
  have e': "is_copy ?ns (spec_heap w') (video_encoder_specs self1) (video_encoder_specs c)"
    using e by (simp add: sh cf)
  have s': "is_copy ?ns (spec_heap w') (csc_encoder_specs self1) (csc_encoder_specs c)"
    using s by (simp add: sh cf)
  have d': "is_copy ?nd (dec_heap w') (video_decoder_specs self1) (video_decoder_specs c)"
    using d by (simp add: sh cf)
  note r1' = r1 [folded sh] and r2' = r2 [folded sh] and r3' = r3 [folded sh]
  show ?thesis
    unfolding cl prod.case w1_def [symmetric] self1_def [symmetric]
    by (intro conjI allI)
       (rule cf(4) i1 refl r1' r2' r3' copy_contents [OF e'] copy_contents [OF s']
             copy_contents [OF d']
             f1 [THEN conjunct1] f1 [THEN conjunct2] f2 [THEN conjunct1] f2 [THEN conjunct2])+
qed

lemma wf_ex_fresh: "wf_registry (fst ex_fresh) ex_enabled"
  by (simp add: wf_registry_def wf_heap_def ex_fresh_def ex_enabled_def ex_world0_def empty_heap_def
        VideoHelper_init_def or_new_dict_def new_outer_dict_def)

theorem clone_structurally_independent_witness:
  "wf_registry (fst ex_fresh) ex_enabled
   \<and> \<not> initialized ex_enabled
   \<and> initialized (snd (snd ex_clone)) \<and> initialized (fst (snd ex_clone))
   \<and> get_encodings (fst ex_clone) (fst (snd ex_clone)) = [''h264'']
   \<and> get_encodings (fst ex_clone) (snd (snd ex_clone)) = [''h264'']
   \<and> read_table (spec_heap (fst ex_clone)) (video_encoder_specs (snd (snd ex_clone))) =
       read_table (spec_heap (fst ex_clone)) (video_encoder_specs (fst (snd ex_clone)))
   \<and> get_encodings (add_encoder_spec (fst ex_clone) (snd (snd ex_clone))
                        ''vp8'' ''YUV420P'' (Spec ''vpx'' 3)) (snd (snd ex_clone)) = [''h264'', ''vp8'']
   \<and> get_encodings (add_encoder_spec (fst ex_clone) (snd (snd ex_clone))
                        ''vp8'' ''YUV420P'' (Spec ''vpx'' 3)) (fst (snd ex_clone)) = [''h264'']
   \<and> get_encodings (add_encoder_spec (fst ex_clone) (fst (snd ex_clone))
                        ''vp8'' ''YUV420P'' (Spec ''vpx'' 3)) (snd (snd ex_clone)) = [''h264'']"
proof -
  note t = clone_structurally_independent [OF wf_ex_fresh, of ex_env, folded ex_clone_def,
             unfolded case_prod_beta]
  have n: "\<not> initialized ex_enabled"
    by (simp add: ex_enabled_def ex_fresh_def VideoHelper_init_def or_new_dict_def new_outer_dict_def)
  have e1: "get_encodings (fst ex_clone) (fst (snd ex_clone)) = [''h264'']" by code_simp
  have e2: "get_encodings (fst ex_clone) (snd (snd ex_clone)) = [''h264'']" by code_simp
  have e3: "get_encodings (add_encoder_spec (fst ex_clone) (snd (snd ex_clone))
                        ''vp8'' ''YUV420P'' (Spec ''vpx'' 3)) (snd (snd ex_clone)) = [''h264'', ''vp8'']"
    by code_simp
  have e4: "no_empty_entries (read_table (spec_heap (fst ex_clone))
                               (video_encoder_specs (fst (snd ex_clone))))"
    by code_simp
  from t have i: "initialized (snd (snd ex_clone))" "initialized (fst (snd ex_clone))"
    by blast+
  from t e4 have r: "read_table (spec_heap (fst ex_clone)) (video_encoder_specs (snd (snd ex_clone))) =
       read_table (spec_heap (fst ex_clone)) (video_encoder_specs (fst (snd ex_clone)))"
    by blast
  from t have "get_encodings (add_encoder_spec (fst ex_clone) (snd (snd ex_clone))
                        ''vp8'' ''YUV420P'' (Spec ''vpx'' 3)) (fst (snd ex_clone)) =
               get_encodings (fst ex_clone) (fst (snd ex_clone))"
    by blast
  then have f1: "get_encodings (add_encoder_spec (fst ex_clone) (snd (snd ex_clone))
                        ''vp8'' ''YUV420P'' (Spec ''vpx'' 3)) (fst (snd ex_clone)) = [''h264'']"
    by (simp only: e1)
  from t have "get_encodings (add_encoder_spec (fst ex_clone) (fst (snd ex_clone))
                        ''vp8'' ''YUV420P'' (Spec ''vpx'' 3)) (snd (snd ex_clone)) =
               get_encodings (fst ex_clone) (snd (snd ex_clone))"
    by blast
  then have f2: "get_encodings (add_encoder_spec (fst ex_clone) (fst (snd ex_clone))
                        ''vp8'' ''YUV420P'' (Spec ''vpx'' 3)) (snd (snd ex_clone)) = [''h264'']"
    by (simp only: e2)
  show ?thesis by (intro conjI) (rule wf_ex_fresh n i e1 e2 r e3 f1 f2)+
qed

text \<open>
  Claim C3 as stated makes the clone's tables copies of the source's. The registry made
  from \<open>{"h264": {"YUV420P": []}}\<close> is well formed and initialised; it offers the
  encoding \<open>h264\<close>, its clone offers none.
\<close>

theorem clone_drops_empty_containers:
  "wf_registry (fst ex_empties) (snd ex_empties)
   \<and> initialized (snd ex_empties)
   \<and> get_encodings (fst ex_empties_clone) (fst (snd ex_empties_clone)) = [''h264'']
   \<and> get_encodings (fst ex_empties_clone) (snd (snd ex_empties_clone)) = []
   \<and> read_table (spec_heap (fst ex_empties_clone))
                 (video_encoder_specs (fst (snd ex_empties_clone))) = [(''h264'', [(''YUV420P'', [])])]
   \<and> read_table (spec_heap (fst ex_empties_clone))
                 (video_encoder_specs (snd (snd ex_empties_clone))) = []"
proof -
  have w: "wf_registry (fst ex_empties) (snd ex_empties)"
    by (simp add: wf_registry_def wf_heap_def ex_empties_def ex_empties_store_def empty_heap_def
          VideoHelper_init_def or_new_dict_def new_outer_dict_def)
  have i: "initialized (snd ex_empties)"
    by (simp add: ex_empties_def VideoHelper_init_def or_new_dict_def new_outer_dict_def
          case_prod_beta)
  have 1: "get_encodings (fst ex_empties_clone) (fst (snd ex_empties_clone)) = [''h264'']"
    by code_simp
  have 2: "get_encodings (fst ex_empties_clone) (snd (snd ex_empties_clone)) = []"
    by code_simp
  have 3: "read_table (spec_heap (fst ex_empties_clone))
                 (video_encoder_specs (fst (snd ex_empties_clone))) = [(''h264'', [(''YUV420P'', [])])]"
    by code_simp
  have 4: "read_table (spec_heap (fst ex_empties_clone))
                 (video_encoder_specs (snd (snd ex_empties_clone))) = []"
    by code_simp
  show ?thesis by (intro conjI) (rule w i 1 2 3 4)+
qed

section \<open>When the query of a decoder entry raises\<close>

lemma decoders_loop_fails:
  assumes "\<not> list_all (\<lambda>d. \<not> isl (m_get_output_colorspace (snd d) e cs)) ds"
  shows "isl (decoders_loop modes e cs ds full)"
  using assms
proof (induction ds arbitrary: full)
  case Nil
  then show ?case by simp
next
  case (Cons d ds)
  obtain name m where d: "d = (name, m)" by (cases d)
  show ?case
  proof (cases "m_get_output_colorspace m e cs")
    case (Inl x)
    then show ?thesis by (simp add: d)
  next
    case (Inr out)
    with Cons.prems d have "\<not> list_all (\<lambda>d. \<not> isl (m_get_output_colorspace (snd d) e cs)) ds"
      by simp
    from Cons.IH [OF this] show ?thesis by (simp add: d Inr)
  qed
qed

lemma colorspaces_loop_fails:
  assumes "\<not> list_all (\<lambda>(cs, ds). list_all (\<lambda>d. \<not> isl (m_get_output_colorspace (snd d) e cs)) ds) items"
  shows "isl (colorspaces_loop modes e items full)"
  using assms
proof (induction items arbitrary: full)
  case Nil
  then show ?case by simp
next
  case (Cons item items)
  obtain cs ds where item: "item = (cs, ds)" by (cases item)
  show ?case
  proof (cases "decoders_loop modes e cs ds full")
    case (Inl x)
    then show ?thesis by (simp add: item)
  next
    case (Inr full1)
    have "list_all (\<lambda>d. \<not> isl (m_get_output_colorspace (snd d) e cs)) ds"
    proof (rule ccontr)
      assume "\<not> list_all (\<lambda>d. \<not> isl (m_get_output_colorspace (snd d) e cs)) ds"
      from decoders_loop_fails [OF this, of modes full] Inr show False by simp
    qed
    with Cons.prems item have
      "\<not> list_all (\<lambda>(cs, ds). list_all (\<lambda>d. \<not> isl (m_get_output_colorspace (snd d) e cs)) ds) items"
      by simp
    from Cons.IH [OF this] show ?thesis by (simp add: item Inr)
  qed
qed

lemma encodings_loop_fails:
  assumes "\<not> queries_succeed table"
  shows "isl (encodings_loop modes table full)"
  using assms
proof (induction table arbitrary: full)
  case Nil
  then show ?case by (simp add: queries_succeed_def)
next
  case (Cons row table)
  obtain e specs where row: "row = (e, specs)" by (cases row)
  show ?case
  proof (cases "colorspaces_loop modes e (sort_key fst specs) full")
    case (Inl x)
    then show ?thesis by (simp add: row)
  next
    case (Inr full1)
    have "list_all (\<lambda>(cs, ds). list_all (\<lambda>d. \<not> isl (m_get_output_colorspace (snd d) e cs)) ds)
            (sort_key fst specs)"
    proof (rule ccontr)
      assume "\<not> list_all (\<lambda>(cs, ds). list_all (\<lambda>d. \<not> isl (m_get_output_colorspace (snd d) e cs)) ds)
            (sort_key fst specs)"
      from colorspaces_loop_fails [OF this, of modes full] Inr show False by simp
    qed
    then have "list_all (\<lambda>(cs, ds). list_all (\<lambda>d. \<not> isl (m_get_output_colorspace (snd d) e cs)) ds)
            specs"
      by (simp add: list_all_iff)
    with Cons.prems row have "\<not> queries_succeed table"
      by (simp add: queries_succeed_def)
    from Cons.IH [OF this] show ?thesis by (simp add: row Inr)
  qed
qed

section \<open>The decoder entries that \<open>init\<close> adds answer the query\<close>

lemma queries_dict_set:
  assumes "list_all P t" and "P (k, v)"
  shows "list_all P (dict_set t k v)"
  using assms by (induction t) auto

lemma map_of_list_all: "list_all P t \<Longrightarrow> map_of t k = Some v \<Longrightarrow> P (k, v)"
  by (auto simp: list_all_iff dest: map_of_SomeD)

lemma queries_succeed_add_val:
  assumes q: "queries_succeed t" and out: "\<not> isl (m_get_output_colorspace (snd d) e cs)"
  shows "queries_succeed (add_val t e cs d)"
proof (cases "map_of t e")
  case None
  then show ?thesis using q out by (simp add: add_val_def queries_succeed_def)
next
  case (Some specs)
  let ?Q = "\<lambda>(colorspace, ds). list_all (\<lambda>d. \<not> isl (m_get_output_colorspace (snd d) e colorspace)) ds"
  from map_of_list_all [OF q [unfolded queries_succeed_def] Some]
  have s: "list_all ?Q specs" by simp
  have "list_all ?Q (inner_add specs cs d)"
  proof (cases "map_of specs cs")
    case None
    then show ?thesis using s out by (simp add: inner_add_def)
  next
    case l: (Some l)
    from map_of_list_all [OF s l] have "list_all (\<lambda>d. \<not> isl (m_get_output_colorspace (snd d) e cs)) l"
      by simp
    with out have "?Q (cs, l @ [d])" by simp
    from queries_dict_set [OF s this] show ?thesis by (simp add: inner_add_def l)
  qed
  then have "(\<lambda>(e, specs). list_all (\<lambda>(colorspace, ds).
        list_all (\<lambda>d. \<not> isl (m_get_output_colorspace (snd d) e colorspace)) ds) specs)
          (e, inner_add specs cs d)" by simp
  from queries_dict_set [OF q [unfolded queries_succeed_def] this]
  show ?thesis by (simp add: add_val_def Some queries_succeed_def)
qed

lemma init_queries_succeed:
  assumes w: "wf_heap (dec_heap w)"
    and o: "owns_from 0 (dec_heap w) (video_decoder_specs self)"
    and q: "queries_succeed (read_table (dec_heap w) (video_decoder_specs self))"
  shows "queries_succeed (read_table (dec_heap (fst (init E w self)))
                            (video_decoder_specs (snd (init E w self))))"
proof -
  let ?P = "\<lambda>w'. wf_heap (dec_heap w')
              \<and> owns_from 0 (dec_heap w') (video_decoder_specs self)
              \<and> queries_succeed (read_table (dec_heap w') (video_decoder_specs self))"
  have "?P (fst (init E w self))"
  proof (rule pres_init [where P = ?P and self = self])
    show "?P (add_encoder_spec w' self e c sp)" if "?P w'" for w' e c sp
      using that by (simp add: add_encoder_spec_def)
    show "?P (add_csc_spec w' self i c sp)" if "?P w'" for w' i c sp
      using that by (simp add: add_csc_spec_def)
    show "?P (add_decoder w' self e c n m)"
      if "m_get_output_colorspace m e c = Inr out" "?P w'" for w' e c n m out
    proof -
      from that(2) have wf: "wf_heap (dec_heap w')"
        and ow: "owns_from 0 (dec_heap w') (video_decoder_specs self)"
        and qs: "queries_succeed (read_table (dec_heap w') (video_decoder_specs self))"
        by simp_all
      from that(1) have "\<not> isl (m_get_output_colorspace (snd (n, m)) e c)" by simp
      from queries_succeed_add_val [OF qs this]
      show ?thesis
        by (simp add: add_decoder_def wf_table_add [OF wf] table_add_owned [OF wf ow])
    qed
    show "?P w" using w o q by simp
  qed
  then show ?thesis by (simp add: init_tables)
qed

lemma get_server_full_csc_modes_result:
  assumes "queries_succeed (read_table (dec_heap w) (video_decoder_specs self))"
  shows "\<exists>full. get_server_full_csc_modes w self modes = Inr full
           \<and> distinct (map fst full)
           \<and> (\<forall>e. map_of full e =
                 (if viable_colorspaces modes (read_table (dec_heap w) (video_decoder_specs self)) e = []
                  then None
                  else Some (first_seen (viable_colorspaces modes
                               (read_table (dec_heap w) (video_decoder_specs self)) e))))
           \<and> (\<forall>e. e \<in> fst ` set full \<longleftrightarrow>
                 (\<exists>specs cs ds d out.
                    (e, specs) \<in> set (read_table (dec_heap w) (video_decoder_specs self))
                  \<and> (cs, ds) \<in> set specs \<and> d \<in> set ds
                  \<and> m_get_output_colorspace (snd d) e cs = Inr out \<and> out \<in> set modes))"
proof -
  let ?T = "read_table (dec_heap w) (video_decoder_specs self)"
  from encodings_loop_result [OF assms, of modes "[]"] obtain full where
    r: "encodings_loop modes ?T [] = Inr full"
    and d: "distinct (map fst full)"
    and m: "\<forall>e. map_of full e = merge_seen None (viable_colorspaces modes ?T e)"
    by auto
  have 1: "get_server_full_csc_modes w self modes = Inr full"
    using r by (simp add: get_server_full_csc_modes_def)
  have 3: "\<forall>e. map_of full e =
             (if viable_colorspaces modes ?T e = [] then None
              else Some (first_seen (viable_colorspaces modes ?T e)))"
    using m by (simp add: merge_seen_None)
  have 4: "e \<in> fst ` set full \<longleftrightarrow>
             (\<exists>specs cs ds d out. (e, specs) \<in> set ?T \<and> (cs, ds) \<in> set specs \<and> d \<in> set ds
                \<and> m_get_output_colorspace (snd d) e cs = Inr out \<and> out \<in> set modes)" for e
  proof -
    have "e \<in> fst ` set full \<longleftrightarrow> map_of full e \<noteq> None"
      by (simp add: map_of_eq_None_iff)
    also have "\<dots> \<longleftrightarrow> viable_colorspaces modes ?T e \<noteq> []"
      using 3 by simp
    finally show ?thesis by (simp only: viable_nonempty_iff)
  qed
  show ?thesis using 1 d 3 4 by blast
qed

lemma ex_two_decoders_table:
  "read_table (dec_heap (fst ex_two_decoders)) (video_decoder_specs (snd ex_two_decoders)) =
     [(''V1'', [(''YUV420P'', [(''dec_avcodec2'', ex_decoder)])]),
      (''V2'', [(''YUV420P'', [(''dec_bad'', ex_raising_decoder)])])]"
  unfolding ex_two_decoders_def ex_one_decoder_def ex_fresh_def ex_world0_def empty_heap_def
    VideoHelper_init_def or_new_dict_def new_outer_dict_def ex_env_def
  by (simp add: init_defs read_table_def read_inner_def Let_def)

text \<open>
  Claim C1, as the code has it. \<open>get_server_full_csc_modes\<close> returns a dictionary exactly
  when no decoder entry of the table raises when asked for its output colorspace; one
  entry that raises ends the call with that exception, whatever the other entries
  answer. When it returns, the dictionary (no key twice) contains an encoding exactly
  when some (input colorspace, decoder entry) pair under that encoding in the decoder
  table has an actual output colorspace in the peer's set; the value is the list of such
  input colorspaces with duplicates removed and first-seen order kept, and an encoding
  with no viable colorspace is absent. \<open>init\<close> adds an entry only after the module has
  answered the query for it, so a table in which every entry answers (the empty table of
  a new registry, for one) is still such a table after \<open>init\<close>; \<open>add_decoder\<close> itself
  accepts any entry.
\<close>

theorem get_server_full_csc_modes_viable:
  "(queries_succeed (read_table (dec_heap w) (video_decoder_specs self)) \<longrightarrow>
      (\<exists>full. get_server_full_csc_modes w self modes = Inr full
           \<and> distinct (map fst full)
           \<and> (\<forall>e. map_of full e =
                 (if viable_colorspaces modes (read_table (dec_heap w) (video_decoder_specs self)) e = []
                  then None
                  else Some (first_seen (viable_colorspaces modes
                               (read_table (dec_heap w) (video_decoder_specs self)) e))))
           \<and> (\<forall>e. e \<in> fst ` set full \<longleftrightarrow>
                 (\<exists>specs cs ds d out.
                    (e, specs) \<in> set (read_table (dec_heap w) (video_decoder_specs self))
                  \<and> (cs, ds) \<in> set specs \<and> d \<in> set ds
                  \<and> m_get_output_colorspace (snd d) e cs = Inr out \<and> out \<in> set modes))))
   \<and> (\<not> queries_succeed (read_table (dec_heap w) (video_decoder_specs self)) \<longrightarrow>
        (\<exists>e. get_server_full_csc_modes w self modes = Inl e))
   \<and> (wf_heap (dec_heap w) \<and> owns_from 0 (dec_heap w) (video_decoder_specs self)
        \<and> queries_succeed (read_table (dec_heap w) (video_decoder_specs self)) \<longrightarrow>
        queries_succeed (read_table (dec_heap (fst (init E w self)))
                           (video_decoder_specs (snd (init E w self)))))"
proof (intro conjI impI)
  assume "queries_succeed (read_table (dec_heap w) (video_decoder_specs self))"
  then show "\<exists>full. get_server_full_csc_modes w self modes = Inr full
           \<and> distinct (map fst full)
           \<and> (\<forall>e. map_of full e =
                 (if viable_colorspaces modes (read_table (dec_heap w) (video_decoder_specs self)) e = []
                  then None
                  else Some (first_seen (viable_colorspaces modes
                               (read_table (dec_heap w) (video_decoder_specs self)) e))))
           \<and> (\<forall>e. e \<in> fst ` set full \<longleftrightarrow>
                 (\<exists>specs cs ds d out.
                    (e, specs) \<in> set (read_table (dec_heap w) (video_decoder_specs self))
                  \<and> (cs, ds) \<in> set specs \<and> d \<in> set ds
                  \<and> m_get_output_colorspace (snd d) e cs = Inr out \<and> out \<in> set modes))"
    by (rule get_server_full_csc_modes_result)
next
  assume "\<not> queries_succeed (read_table (dec_heap w) (video_decoder_specs self))"
  from encodings_loop_fails [OF this, of modes "[]"]
  show "\<exists>e. get_server_full_csc_modes w self modes = Inl e"
    by (cases "encodings_loop modes (read_table (dec_heap w) (video_decoder_specs self)) []")
       (simp_all add: get_server_full_csc_modes_def)
next
  assume "wf_heap (dec_heap w) \<and> owns_from 0 (dec_heap w) (video_decoder_specs self)
        \<and> queries_succeed (read_table (dec_heap w) (video_decoder_specs self))"
  then show "queries_succeed (read_table (dec_heap (fst (init E w self)))
                           (video_decoder_specs (snd (init E w self))))"
    by (intro init_queries_succeed) simp_all
qed

theorem get_server_full_csc_modes_viable_witness:
  "queries_succeed (read_table (dec_heap (fst ex_one_decoder)) (video_decoder_specs (snd ex_one_decoder)))
   \<and> get_server_full_csc_modes (fst ex_one_decoder) (snd ex_one_decoder) [''RGB''] =
       Inr [(''V1'', [''YUV420P''])]
   \<and> get_server_full_csc_modes (fst ex_one_decoder) (snd ex_one_decoder) [''RGB2''] = Inr []
   \<and> (\<exists>full. get_server_full_csc_modes (fst ex_one_decoder) (snd ex_one_decoder) [''RGB''] = Inr full
          \<and> map_of full ''V1'' = Some [''YUV420P''])
   \<and> \<not> queries_succeed (read_table (dec_heap (fst ex_two_decoders))
                          (video_decoder_specs (snd ex_two_decoders)))
   \<and> (\<exists>e. get_server_full_csc_modes (fst ex_two_decoders) (snd ex_two_decoders) [''RGB''] = Inl e)
   \<and> wf_heap (dec_heap (fst ex_fresh))
   \<and> owns_from 0 (dec_heap (fst ex_fresh)) (video_decoder_specs ex_enabled)
   \<and> queries_succeed (read_table (dec_heap (fst ex_fresh)) (video_decoder_specs ex_enabled))
   \<and> queries_succeed (read_table (dec_heap (fst ex_initialized))
                        (video_decoder_specs (snd ex_initialized)))"
proof -
  let ?T = "read_table (dec_heap (fst ex_one_decoder)) (video_decoder_specs (snd ex_one_decoder))"
  have h: "queries_succeed ?T"
    unfolding ex_one_decoder_table by (simp add: queries_succeed_def ex_decoder_def)
  have e1: "get_server_full_csc_modes (fst ex_one_decoder) (snd ex_one_decoder) [''RGB''] =
       Inr [(''V1'', [''YUV420P''])]"
    unfolding get_server_full_csc_modes_def ex_one_decoder_table
    by (simp add: ex_decoder_def record_colorspace_def)
  have e2: "get_server_full_csc_modes (fst ex_one_decoder) (snd ex_one_decoder) [''RGB2''] = Inr []"
    unfolding get_server_full_csc_modes_def ex_one_decoder_table
    by (simp add: ex_decoder_def record_colorspace_def)
  have v: "viable_colorspaces [''RGB''] ?T ''V1'' = [''YUV420P'']"
    unfolding ex_one_decoder_table
    by (simp add: viable_colorspaces_def output_in_def ex_decoder_def)
  note t = get_server_full_csc_modes_viable
             [of "fst ex_one_decoder" "snd ex_one_decoder" "[''RGB'']", THEN conjunct1, THEN mp, OF h]
  then obtain full where
    a: "get_server_full_csc_modes (fst ex_one_decoder) (snd ex_one_decoder) [''RGB''] = Inr full
      \<and> distinct (map fst full)
      \<and> (\<forall>e. map_of full e =
                 (if viable_colorspaces [''RGB''] ?T e = [] then None
                  else Some (first_seen (viable_colorspaces [''RGB''] ?T e))))
      \<and> (\<forall>e. e \<in> fst ` set full \<longleftrightarrow>
                 (\<exists>specs cs ds d out.
                    (e, specs) \<in> set ?T
                  \<and> (cs, ds) \<in> set specs \<and> d \<in> set ds
                  \<and> m_get_output_colorspace (snd d) e cs = Inr out \<and> out \<in> set [''RGB'']))" ..
  from a have r: "get_server_full_csc_modes (fst ex_one_decoder) (snd ex_one_decoder) [''RGB''] = Inr full"
    by (rule conjunct1)
  from a have "map_of full ''V1'' =
                 (if viable_colorspaces [''RGB''] ?T ''V1'' = [] then None
                  else Some (first_seen (viable_colorspaces [''RGB''] ?T ''V1'')))"
    by (elim conjE allE) 
  then have "map_of full ''V1'' = Some [''YUV420P'']" unfolding v by simp
  with r have l: "\<exists>full. get_server_full_csc_modes (fst ex_one_decoder) (snd ex_one_decoder) [''RGB''] = Inr full
          \<and> map_of full ''V1'' = Some [''YUV420P'']" by (intro exI conjI)
  have n: "\<not> queries_succeed (read_table (dec_heap (fst ex_two_decoders))
                          (video_decoder_specs (snd ex_two_decoders)))"
    unfolding ex_two_decoders_table
    by (simp add: queries_succeed_def ex_raising_decoder_def ex_decoder_def)
  note f = get_server_full_csc_modes_viable
             [of "fst ex_two_decoders" "snd ex_two_decoders" "[''RGB'']",
              THEN conjunct2, THEN conjunct1, THEN mp, OF n]
  have w: "wf_heap (dec_heap (fst ex_fresh))"
    by (simp add: wf_heap_def ex_fresh_def ex_world0_def empty_heap_def
          VideoHelper_init_def or_new_dict_def new_outer_dict_def)
  have o: "owns_from 0 (dec_heap (fst ex_fresh)) (video_decoder_specs ex_enabled)"
    by (simp add: owns_from_def table_inner_addrs_def table_list_addrs_def ex_enabled_def
          ex_fresh_def ex_world0_def empty_heap_def
          VideoHelper_init_def or_new_dict_def new_outer_dict_def)
  have q: "queries_succeed (read_table (dec_heap (fst ex_fresh)) (video_decoder_specs ex_enabled))"
    by (simp add: queries_succeed_def read_table_def ex_enabled_def
          ex_fresh_def ex_world0_def empty_heap_def
          VideoHelper_init_def or_new_dict_def new_outer_dict_def)
  from w o q have woq: "wf_heap (dec_heap (fst ex_fresh))
        \<and> owns_from 0 (dec_heap (fst ex_fresh)) (video_decoder_specs ex_enabled)
        \<and> queries_succeed (read_table (dec_heap (fst ex_fresh)) (video_decoder_specs ex_enabled))"
    by (intro conjI)
  note i = get_server_full_csc_modes_viable
             [of "fst ex_fresh" ex_enabled _ ex_env,
              THEN conjunct2, THEN conjunct2, THEN mp, OF woq, folded ex_initialized_def]
  show ?thesis by (intro conjI) (rule h e1 e2 l n f w o q i)+
qed

text \<open>
  Claim C1 as stated has the mapping returned for every initialised registry. Here a
  registry gets a decoder entry for \<open>V1\<close> whose output colorspace is \<open>RGB\<close> and one for
  \<open>V2\<close> whose module raises when asked; after \<open>init\<close> the query with \<open>RGB\<close> returns no
  mapping, it raises, although \<open>V1\<close> has a viable colorspace.
\<close>

theorem get_server_full_csc_modes_raises:
  "initialized (snd ex_two_decoders)
   \<and> read_table (dec_heap (fst ex_two_decoders)) (video_decoder_specs (snd ex_two_decoders)) =
       [(''V1'', [(''YUV420P'', [(''dec_avcodec2'', ex_decoder)])]),
        (''V2'', [(''YUV420P'', [(''dec_bad'', ex_raising_decoder)])])]
   \<and> m_get_output_colorspace ex_decoder ''V1'' ''YUV420P'' = Inr ''RGB''
   \<and> m_get_output_colorspace ex_raising_decoder ''V2'' ''YUV420P'' = Inl (Raised ''no output colorspace'')
   \<and> get_server_full_csc_modes (fst ex_two_decoders) (snd ex_two_decoders) [''RGB''] =
       Inl (Raised ''no output colorspace'')"
proof -
  have 1: "initialized (snd ex_two_decoders)"
    unfolding ex_two_decoders_def by (rule init_initialized)
  have 3: "m_get_output_colorspace ex_decoder ''V1'' ''YUV420P'' = Inr ''RGB''"
    by (simp add: ex_decoder_def)
  have 4: "m_get_output_colorspace ex_raising_decoder ''V2'' ''YUV420P'' =
             Inl (Raised ''no output colorspace'')"
    by (simp add: ex_raising_decoder_def)
  have 5: "get_server_full_csc_modes (fst ex_two_decoders) (snd ex_two_decoders) [''RGB''] =
       Inl (Raised ''no output colorspace'')"
    unfolding get_server_full_csc_modes_def ex_two_decoders_table
    by (simp add: 3 4 record_colorspace_def)
  show ?thesis by (intro conjI) (rule 1 ex_two_decoders_table 3 4 5)+
qed

end
